theory Spec2Isabelle
  imports Main "HOL-Library.Char_ord" "HOL-Library.List_Lexorder" "HOL-Library.Multiset"
begin

section \<open>Data model of \<open>spotify_weekly.py\<close>\<close>

text \<open>
  The dictionaries returned by the remote catalogue are read through fixed keys only, so
  each of them is a record with exactly the fields the script reads. Strings are lists of
  characters, a character being a code point below 256; the order on them (\<open>Char_ord\<close>,
  \<open>List_Lexorder\<close>) is the lexicographic order by character code that Python uses when it
  compares \<open>str\<close> values.
\<close>

record artist =
  artist_id :: string
  artist_name :: string

record album =
  album_id :: string
  album_name :: string
  album_release_date :: string

record api_track =
  track_id :: string
  track_name :: string
  track_uri :: string

text \<open>The \<open>track_info\<close> dictionary built in \<open>get_recent_releases\<close>.\<close>

record track_info =
  ti_id :: string
  ti_name :: string
  ti_artist :: string
  ti_album :: string
  ti_release_date :: string
  ti_uri :: string

record playlist =
  playlist_id :: string
  playlist_url :: string

text \<open>
  Exceptions are values. \<open>ValueError\<close> is what \<open>datetime.strptime\<close> raises,
  \<open>OverflowError\<close> is what the date arithmetic of line 114 raises, and
  \<open>SpotifyException\<close> stands for any other \<open>Exception\<close> raised by a request to the
  remote service.
\<close>

datatype py_error = ValueError | OverflowError | SpotifyException

text \<open>
  A naive \<open>datetime\<close>: the calendar date and the time of day in microseconds since
  midnight. \<open>strptime\<close> with the format \<open>%Y-%m-%d\<close> always gives midnight.
\<close>

record datetime =
  dt_year :: nat
  dt_month :: nat
  dt_day :: nat
  dt_micros :: nat

text \<open>The comparison \<open>a >= b\<close> of two naive \<open>datetime\<close> values.\<close>

definition datetime_ge :: "datetime \<Rightarrow> datetime \<Rightarrow> bool" where
  "datetime_ge a b =
     (dt_year b < dt_year a \<or> dt_year b = dt_year a \<and>
       (dt_month b < dt_month a \<or> dt_month b = dt_month a \<and>
         (dt_day b < dt_day a \<or> dt_day b = dt_day a \<and> dt_micros b \<le> dt_micros a)))"

section \<open>The library call \<open>datetime.strptime(s, '%Y-%m-%d')\<close>\<close>

text \<open>
  CPython compiles the format into the regular expression
  \<^verbatim>\<open>(?P<Y>\d\d\d\d)-(?P<m>1[0-2]|0[1-9]|[1-9])-(?P<d>3[0-1]|[1-2]\d|0[1-9]|[1-9]| [1-9])\<close>,
  matches it at the start of the string, raises \<open>ValueError\<close> when there is no match or
  when the match does not reach the end of the string, converts the three groups with
  \<open>int\<close> and builds the date, which raises \<open>ValueError\<close> for year 0 and for a day that the
  month does not have. The alternatives of a group are tried in the order written.
  Digits are the ASCII digits.
\<close>

definition is_digit :: "char \<Rightarrow> bool" where
  "is_digit c = (c \<in> set ''0123456789'')"

definition digit_val :: "char \<Rightarrow> nat" where
  "digit_val c = of_char c - 48"

fun match_Y :: "string \<Rightarrow> (nat \<times> string) list" where
  "match_Y (a # b # c # d # rest) =
     (if is_digit a \<and> is_digit b \<and> is_digit c \<and> is_digit d
      then [(1000 * digit_val a + 100 * digit_val b + 10 * digit_val c + digit_val d, rest)]
      else [])"
| "match_Y _ = []"

fun match_dash :: "string \<Rightarrow> string list" where
  "match_dash (c # rest) = (if c = CHR ''-'' then [rest] else [])"
| "match_dash [] = []"

text \<open>Two characters \<open>a\<close>, \<open>b\<close> with \<open>a\<close> in \<open>as\<close> and \<open>b\<close> in \<open>bs\<close>, read by \<open>int\<close>.\<close>

fun two_chars :: "string \<Rightarrow> string \<Rightarrow> string \<Rightarrow> (nat \<times> string) list" where
  "two_chars as bs (a # b # rest) =
     (if a \<in> set as \<and> b \<in> set bs
      then [((if a = CHR '' '' then 0 else 10 * digit_val a) + digit_val b, rest)] else [])"
| "two_chars as bs _ = []"

fun one_char :: "string \<Rightarrow> string \<Rightarrow> (nat \<times> string) list" where
  "one_char as (a # rest) = (if a \<in> set as then [(digit_val a, rest)] else [])"
| "one_char as [] = []"

definition match_m :: "string \<Rightarrow> (nat \<times> string) list" where
  "match_m s = two_chars ''1'' ''012'' s @ two_chars ''0'' ''123456789'' s @ one_char ''123456789'' s"

definition match_d :: "string \<Rightarrow> (nat \<times> string) list" where
  "match_d s = two_chars ''3'' ''01'' s @ two_chars ''12'' ''0123456789'' s
     @ two_chars ''0'' ''123456789'' s @ one_char ''123456789'' s
     @ two_chars '' '' ''123456789'' s"

text \<open>All matches of the whole expression, in the order the backtracking matcher finds them.\<close>

definition format_regex_matches :: "string \<Rightarrow> ((nat \<times> nat \<times> nat) \<times> string) list" where
  "format_regex_matches s =
     concat (map (\<lambda>(y, r1). concat (map (\<lambda>r2. concat (map (\<lambda>(m, r3). concat (map (\<lambda>r4.
        map (\<lambda>(d, r5). ((y, m, d), r5)) (match_d r4))
        (match_dash r3))) (match_m r2))) (match_dash r1))) (match_Y s))"

definition is_leap :: "nat \<Rightarrow> bool" where
  "is_leap y = (y mod 4 = 0 \<and> (y mod 100 \<noteq> 0 \<or> y mod 400 = 0))"

definition days_in_month :: "nat \<Rightarrow> nat \<Rightarrow> nat" where
  "days_in_month y m =
     (if m = 2 then (if is_leap y then 29 else 28)
      else if m \<in> {4, 6, 9, 11} then 30 else 31)"

text \<open>The range check of the \<open>date\<close> constructor (\<open>MINYEAR = 1\<close>, \<open>MAXYEAR = 9999\<close>).\<close>

definition valid_date :: "nat \<Rightarrow> nat \<Rightarrow> nat \<Rightarrow> bool" where
  "valid_date y m d = (1 \<le> y \<and> y \<le> 9999 \<and> 1 \<le> m \<and> m \<le> 12 \<and> 1 \<le> d \<and> d \<le> days_in_month y m)"

definition strptime :: "string \<Rightarrow> py_error + datetime" where
  "strptime s =
     (case format_regex_matches s of
        [] \<Rightarrow> Inl ValueError
      | ((y, m, d), rest) # _ \<Rightarrow>
          if rest \<noteq> [] then Inl ValueError
          else if valid_date y m d
          then Inr \<lparr>dt_year = y, dt_month = m, dt_day = d, dt_micros = 0\<rparr>
          else Inl ValueError)"

section \<open>The library expression \<open>datetime.now() - timedelta(days=n)\<close>\<close>

text \<open>
  CPython turns the date into its ordinal (1 January of year 1 is day 1), subtracts the
  days and turns the ordinal back into a date; the time of day stays. The functions are
  those of \<open>_pydatetime.py\<close>, on a date whose year is at least 1 and whose month is
  between 1 and 12, as every \<open>datetime\<close> has them.
\<close>

definition days_before_year :: "nat \<Rightarrow> nat" where
  "days_before_year year = (let y = year - 1 in y * 365 + y div 4 - y div 100 + y div 400)"

definition DAYS_IN_MONTH :: "nat list" where
  "DAYS_IN_MONTH = [0, 31, 28, 31, 30, 31, 30, 31, 31, 30, 31, 30, 31]"

definition DAYS_BEFORE_MONTH :: "nat list" where
  "DAYS_BEFORE_MONTH = [0, 0, 31, 59, 90, 120, 151, 181, 212, 243, 273, 304, 334]"

definition days_before_month :: "nat \<Rightarrow> nat \<Rightarrow> nat" where
  "days_before_month year month =
     DAYS_BEFORE_MONTH ! month + (if month > 2 \<and> is_leap year then 1 else 0)"

definition ymd2ord :: "nat \<Rightarrow> nat \<Rightarrow> nat \<Rightarrow> nat" where
  "ymd2ord year month day = days_before_year year + days_before_month year month + day"

definition ord2ymd :: "nat \<Rightarrow> nat \<times> nat \<times> nat" where
  "ord2ymd ordinal =
     (let n = ordinal - 1;
          n400 = n div 146097; r400 = n mod 146097;
          n100 = r400 div 36524; r100 = r400 mod 36524;
          n4 = r100 div 1461; r4 = r100 mod 1461;
          n1 = r4 div 365; r1 = r4 mod 365;
          year = n400 * 400 + 1 + n100 * 100 + n4 * 4 + n1
      in if n1 = 4 \<or> n100 = 4 then (year - 1, 12, 31)
         else
           (let leapyear = (n1 = 3 \<and> (n4 \<noteq> 24 \<or> n100 = 3));
                month = (r1 + 50) div 32;
                preceding = DAYS_BEFORE_MONTH ! month + (if month > 2 \<and> leapyear then 1 else 0)
            in if preceding > r1
               then (let month' = month - 1;
                         preceding' = preceding
                           - (DAYS_IN_MONTH ! month' + (if month' = 2 \<and> leapyear then 1 else 0))
                     in (year, month', r1 - preceding' + 1))
               else (year, month, r1 - preceding + 1)))"

text \<open>
  \<open>dt - timedelta(days=n)\<close>. The \<open>timedelta\<close> constructor raises \<open>OverflowError\<close> for
  more than 999999999 days in either direction, and the subtraction raises it when the
  result is not a date of the years 1 to 9999 (ordinals 1 to 3652059).
\<close>

definition datetime_minus_days :: "datetime \<Rightarrow> int \<Rightarrow> py_error + datetime" where
  "datetime_minus_days dt n =
     (if n < - 999999999 \<or> 999999999 < n then Inl OverflowError
      else
        (let ordinal = int (ymd2ord (dt_year dt) (dt_month dt) (dt_day dt)) - n
         in if 0 < ordinal \<and> ordinal \<le> 3652059
            then (case ord2ymd (nat ordinal) of
                    (y, m, d) \<Rightarrow>
                      Inr \<lparr>dt_year = y, dt_month = m, dt_day = d, dt_micros = dt_micros dt\<rparr>)
            else Inl OverflowError))"

section \<open>The remote service and the effects of a run\<close>

text \<open>
  The requests the script sends through \<open>self.sp\<close>, and the lines it prints. Every
  function of the script returns its value together with the events it causes, in order.
\<close>

datatype api_call =
    CurrentUserFollowedArtists
  | NextPage
  | ArtistRelatedArtists string
  | ArtistAlbums string
  | AlbumTracks string
  | UserPlaylistCreate "string option" string string
  | PlaylistAddItems string "string list"

datatype message =
    MsgFetchingFollowed
  | MsgFoundFollowed nat
  | MsgFindingSimilar
  | MsgSimilarProgress nat nat
  | MsgSimilarError string py_error
  | MsgFoundSimilar nat
  | MsgCheckingReleases int
  | MsgReleasesProgress nat nat
  | MsgReleasesError string py_error
  | MsgFoundRecent nat
  | MsgNoTracksToAdd
  | MsgCreatedPlaylist string nat
  | MsgPlaylistURL string
  | MsgCreateError py_error
  | MsgNoNewReleasesFound
  | MsgSummaryHeader nat
  | MsgRule nat
  | MsgTrackName nat string
  | MsgTrackBy string string
  | MsgTrackReleased string
  | MsgBlank
  | MsgMoreTracks nat
  | MsgStarting
  | MsgNoFollowedArtists
  | MsgSuccess
  | MsgFailed
  | MsgNoNewReleasesThisWeek
  | MsgUnexpectedError py_error

datatype event = Call api_call | Print message

text \<open>
  The answer to \<open>current_user_followed_artists\<close> and to each following \<open>next\<close>: the
  request raises, or it gives a page whose \<open>next\<close> link is empty, or a page with a
  \<open>next\<close> link together with the answer that following the link will give.
\<close>

datatype followed_response =
    Raises py_error
  | LastPage "artist list"
  | MorePages "artist list" followed_response

text \<open>The remote service: within one run, the answer to a request depends on the request only.\<close>

record spotify =
  current_user_followed_artists :: followed_response
  artist_related_artists :: "string \<Rightarrow> py_error + artist list"
  artist_albums :: "string \<Rightarrow> py_error + album list"
  album_tracks :: "string \<Rightarrow> py_error + api_track list"
  user_playlist_create :: "string option \<Rightarrow> string \<Rightarrow> string \<Rightarrow> py_error + playlist"
  playlist_add_items :: "string \<Rightarrow> string list \<Rightarrow> py_error + unit"

text \<open>
  The \<open>MusicDiscoveryTool\<close> object after \<open>__init__\<close>, with what the script reads
  from the clock: \<open>now\<close> is the value of \<open>datetime.now()\<close> at line 114, \<open>playlist_name\<close>
  and \<open>description\<close> are the two formatted strings of \<open>create_playlist\<close>.
  \<open>days_lookback\<close> and \<open>max_tracks\<close> come from \<open>int(os.getenv(...))\<close>: any integer.
  \<open>user_id\<close> is \<open>None\<close> or a string; line 22 of \<open>__init__\<close> sets it to \<open>None\<close> after
  \<open>setup_spotify_client\<close> has stored the identifier, and nothing sets it later.
\<close>

record tool =
  sp :: spotify
  user_id :: "string option"
  days_lookback :: int
  max_tracks :: int
  now :: datetime
  playlist_name :: string
  description :: string

text \<open>Line 114: \<open>cutoff_date = datetime.now() - timedelta(days=self.days_lookback)\<close>.\<close>

definition cutoff_date :: "tool \<Rightarrow> py_error + datetime" where
  "cutoff_date self = datetime_minus_days (now self) (days_lookback self)"

section \<open>\<open>get_followed_artists\<close>\<close>

fun followed_loop :: "followed_response \<Rightarrow> artist list \<Rightarrow> (py_error + artist list) \<times> event list" where
  "followed_loop (Raises e) artists = (Inl e, [])"
| "followed_loop (LastPage items) artists = (Inr (artists @ items), [])"
| "followed_loop (MorePages items r) artists =
     (case followed_loop r (artists @ items) of (res, evs) \<Rightarrow> (res, Call NextPage # evs))"

definition get_followed_artists :: "tool \<Rightarrow> (py_error + artist list) \<times> event list" where
  "get_followed_artists self =
     (case followed_loop (current_user_followed_artists (sp self)) [] of
        (Inl e, evs) \<Rightarrow> (Inl e, Print MsgFetchingFollowed # Call CurrentUserFollowedArtists # evs)
      | (Inr artists, evs) \<Rightarrow>
          (Inr artists, Print MsgFetchingFollowed # Call CurrentUserFollowedArtists # evs
             @ [Print (MsgFoundFollowed (length artists))]))"

section \<open>The related-artist expander: \<open>get_similar_artists\<close>\<close>

text \<open>The inner loop over \<open>related['artists']\<close>; the state is \<open>(similar_artists, seen_ids)\<close>.\<close>

fun related_loop :: "int \<Rightarrow> artist list \<Rightarrow> artist list \<times> string set \<Rightarrow> artist list \<times> string set" where
  "related_loop max_similar [] st = st"
| "related_loop max_similar (a # rest) (similar_artists, seen_ids) =
     (if artist_id a \<notin> seen_ids \<and> int (length similar_artists) < max_similar
      then related_loop max_similar rest (similar_artists @ [a], insert (artist_id a) seen_ids)
      else related_loop max_similar rest (similar_artists, seen_ids))"

text \<open>One pass of the outer loop: the \<open>try\<close> block and its \<open>except Exception\<close>.\<close>

definition similar_step :: "spotify \<Rightarrow> int \<Rightarrow> nat \<Rightarrow> nat \<times> string \<Rightarrow> artist list \<times> string set
    \<Rightarrow> (artist list \<times> string set) \<times> event list" where
  "similar_step api max_similar sample_size ia st =
     (case ia of (i, aid) \<Rightarrow>
        (case artist_related_artists api aid of
           Inl e \<Rightarrow> (st, [Call (ArtistRelatedArtists aid), Print (MsgSimilarError aid e)])
         | Inr related \<Rightarrow>
             (related_loop max_similar related st,
              [Call (ArtistRelatedArtists aid), Print (MsgSimilarProgress (i + 1) sample_size)])))"

fun similar_loop :: "spotify \<Rightarrow> int \<Rightarrow> nat \<Rightarrow> (nat \<times> string) list \<Rightarrow> artist list \<times> string set
    \<Rightarrow> (artist list \<times> string set) \<times> event list" where
  "similar_loop api max_similar sample_size [] st = (st, [])"
| "similar_loop api max_similar sample_size (ia # rest) st =
     (case similar_step api max_similar sample_size ia st of
        (st', evs) \<Rightarrow>
          (case similar_loop api max_similar sample_size rest st' of
             (st'', evs') \<Rightarrow> (st'', evs @ evs')))"

definition get_similar_artists :: "tool \<Rightarrow> string list \<Rightarrow> int \<Rightarrow> artist list \<times> event list" where
  "get_similar_artists self artist_ids max_similar =
     (let sample_size = min 10 (length artist_ids) in
      case similar_loop (sp self) max_similar sample_size
             (enumerate 0 (take sample_size artist_ids)) ([], set artist_ids) of
        ((similar_artists, seen_ids), evs) \<Rightarrow>
          (similar_artists,
           Print MsgFindingSimilar # evs @ [Print (MsgFoundSimilar (length similar_artists))]))"

section \<open>The release scanner: \<open>get_recent_releases\<close>\<close>

text \<open>
  Lines 129 to 138: the \<open>try\<close> around the full-date parse and its \<open>except ValueError\<close>
  branch. \<open>Inl e\<close>: the statement raises \<open>e\<close> (the two inner \<open>strptime\<close> calls are not
  guarded); \<open>Inr None\<close>: the \<open>continue\<close>; \<open>Inr (Some d)\<close>: \<open>release_date = d\<close>.
\<close>

definition parse_release_date :: "string \<Rightarrow> py_error + datetime option" where
  "parse_release_date rd =
     (case strptime rd of
        Inr d \<Rightarrow> Inr (Some d)
      | Inl ValueError \<Rightarrow>
          if length rd = 4 then
            (case strptime (rd @ ''-01-01'') of Inr d \<Rightarrow> Inr (Some d) | Inl e \<Rightarrow> Inl e)
          else if length rd = 7 then
            (case strptime (rd @ ''-01'') of Inr d \<Rightarrow> Inr (Some d) | Inl e \<Rightarrow> Inl e)
          else Inr None
      | Inl e \<Rightarrow> Inl e)"

definition make_track_info :: "artist \<Rightarrow> album \<Rightarrow> api_track \<Rightarrow> track_info" where
  "make_track_info a al t =
     \<lparr>ti_id = track_id t, ti_name = track_name t, ti_artist = artist_name a,
      ti_album = album_name al, ti_release_date = album_release_date al, ti_uri = track_uri t\<rparr>"

text \<open>
  The loop over \<open>albums['items']\<close>. The result is \<open>recent_tracks\<close> as the loop leaves it
  and the exception that ended the loop, if one did: what was appended before stays.
\<close>

fun album_loop :: "spotify \<Rightarrow> datetime \<Rightarrow> artist \<Rightarrow> album list \<Rightarrow> track_info list
    \<Rightarrow> (track_info list \<times> py_error option) \<times> event list" where
  "album_loop api cutoff a [] recent_tracks = ((recent_tracks, None), [])"
| "album_loop api cutoff a (al # rest) recent_tracks =
     (case parse_release_date (album_release_date al) of
        Inl e \<Rightarrow> ((recent_tracks, Some e), [])
      | Inr None \<Rightarrow> album_loop api cutoff a rest recent_tracks
      | Inr (Some release_date) \<Rightarrow>
          if datetime_ge release_date cutoff then
            (case album_tracks api (album_id al) of
               Inl e \<Rightarrow> ((recent_tracks, Some e), [Call (AlbumTracks (album_id al))])
             | Inr tracks \<Rightarrow>
                 (case album_loop api cutoff a rest
                         (recent_tracks @ map (make_track_info a al) tracks) of
                    (res, evs) \<Rightarrow> (res, Call (AlbumTracks (album_id al)) # evs)))
          else album_loop api cutoff a rest recent_tracks)"

text \<open>One pass of the loop over the artists: the \<open>try\<close> block and its \<open>except Exception\<close>.\<close>

definition scan_artist :: "spotify \<Rightarrow> datetime \<Rightarrow> nat \<Rightarrow> nat \<times> artist \<Rightarrow> track_info list
    \<Rightarrow> track_info list \<times> event list" where
  "scan_artist api cutoff n ia recent_tracks =
     (case ia of (i, a) \<Rightarrow>
        (case artist_albums api (artist_id a) of
           Inl e \<Rightarrow>
             (recent_tracks,
              [Call (ArtistAlbums (artist_id a)), Print (MsgReleasesError (artist_name a) e)])
         | Inr albums \<Rightarrow>
             (case album_loop api cutoff a albums recent_tracks of
                ((recent_tracks', None), evs) \<Rightarrow>
                  (recent_tracks',
                   Call (ArtistAlbums (artist_id a)) # evs
                     @ (if (i + 1) mod 10 = 0 then [Print (MsgReleasesProgress (i + 1) n)] else []))
              | ((recent_tracks', Some e), evs) \<Rightarrow>
                  (recent_tracks',
                   Call (ArtistAlbums (artist_id a)) # evs
                     @ [Print (MsgReleasesError (artist_name a) e)]))))"

fun artist_loop :: "spotify \<Rightarrow> datetime \<Rightarrow> nat \<Rightarrow> (nat \<times> artist) list \<Rightarrow> track_info list
    \<Rightarrow> track_info list \<times> event list" where
  "artist_loop api cutoff n [] recent_tracks = (recent_tracks, [])"
| "artist_loop api cutoff n (ia # rest) recent_tracks =
     (case scan_artist api cutoff n ia recent_tracks of
        (recent_tracks', evs) \<Rightarrow>
          (case artist_loop api cutoff n rest recent_tracks' of
             (res, evs') \<Rightarrow> (res, evs @ evs')))"

subsection \<open>Removing duplicates, sorting, truncating\<close>

text \<open>
  \<open>str.lower\<close>. A character is a code point below 256. Among these, \<open>str.lower\<close>
  changes the letters \<open>A\<close> to \<open>Z\<close> and the capital letters of Latin-1, U+00C0 to U+00DE
  without the multiplication sign U+00D7; each becomes the small letter 32 places on,
  whatever stands around it.
\<close>

definition upper_letters :: string where
  "upper_letters = ''ABCDEFGHIJKLMNOPQRSTUVWXYZ''
     @ [CHR 0xC0, CHR 0xC1, CHR 0xC2, CHR 0xC3, CHR 0xC4, CHR 0xC5, CHR 0xC6, CHR 0xC7,
        CHR 0xC8, CHR 0xC9, CHR 0xCA, CHR 0xCB, CHR 0xCC, CHR 0xCD, CHR 0xCE, CHR 0xCF,
        CHR 0xD0, CHR 0xD1, CHR 0xD2, CHR 0xD3, CHR 0xD4, CHR 0xD5, CHR 0xD6,
        CHR 0xD8, CHR 0xD9, CHR 0xDA, CHR 0xDB, CHR 0xDC, CHR 0xDD, CHR 0xDE]"

definition lower_letters :: string where
  "lower_letters = ''abcdefghijklmnopqrstuvwxyz''
     @ [CHR 0xE0, CHR 0xE1, CHR 0xE2, CHR 0xE3, CHR 0xE4, CHR 0xE5, CHR 0xE6, CHR 0xE7,
        CHR 0xE8, CHR 0xE9, CHR 0xEA, CHR 0xEB, CHR 0xEC, CHR 0xED, CHR 0xEE, CHR 0xEF,
        CHR 0xF0, CHR 0xF1, CHR 0xF2, CHR 0xF3, CHR 0xF4, CHR 0xF5, CHR 0xF6,
        CHR 0xF8, CHR 0xF9, CHR 0xFA, CHR 0xFB, CHR 0xFC, CHR 0xFD, CHR 0xFE]"

definition lower_char :: "char \<Rightarrow> char" where
  "lower_char c = (case map_of (zip upper_letters lower_letters) c of Some l \<Rightarrow> l | None \<Rightarrow> c)"

definition lower :: "string \<Rightarrow> string" where
  "lower s = map lower_char s"

definition track_key :: "track_info \<Rightarrow> string \<times> string" where
  "track_key track = (lower (ti_name track), lower (ti_artist track))"

text \<open>The loop over \<open>recent_tracks\<close> with its two variables \<open>seen_tracks\<close> and \<open>unique_tracks\<close>.\<close>

fun dedup_loop :: "track_info list \<Rightarrow> (string \<times> string) set \<Rightarrow> track_info list \<Rightarrow> track_info list" where
  "dedup_loop [] seen_tracks unique_tracks = unique_tracks"
| "dedup_loop (track # rest) seen_tracks unique_tracks =
     (if track_key track \<notin> seen_tracks
      then dedup_loop rest (insert (track_key track) seen_tracks) (unique_tracks @ [track])
      else dedup_loop rest seen_tracks unique_tracks)"

text \<open>
  \<open>xs.sort(key=f, reverse=True)\<close>: a stable sort into descending order of the keys.
  CPython reverses the list, sorts it stably into ascending order and reverses it again.
\<close>

definition sort_reverse :: "('a \<Rightarrow> 'k::linorder) \<Rightarrow> 'a list \<Rightarrow> 'a list" where
  "sort_reverse f xs = rev (sort_key f (rev xs))"

text \<open>The slice \<open>xs[:m]\<close>: a negative \<open>m\<close> counts from the end of the list.\<close>

definition slice_to :: "'a list \<Rightarrow> int \<Rightarrow> 'a list" where
  "slice_to xs m = (if m < 0 then take (nat (int (length xs) + m)) xs else take (nat m) xs)"

text \<open>
  The whole method. Line 114 stands outside every \<open>try\<close>: when it raises, the method
  raises after its first message.
\<close>

definition get_recent_releases :: "tool \<Rightarrow> artist list \<Rightarrow> (py_error + track_info list) \<times> event list" where
  "get_recent_releases self artists =
     (case cutoff_date self of
        Inl e \<Rightarrow> (Inl e, [Print (MsgCheckingReleases (days_lookback self))])
      | Inr cutoff \<Rightarrow>
          (case artist_loop (sp self) cutoff (length artists) (enumerate 0 artists) [] of
             (recent_tracks, evs) \<Rightarrow>
               (let unique_tracks = sort_reverse ti_release_date (dedup_loop recent_tracks {} [])
                in (Inr (slice_to unique_tracks (max_tracks self)),
                    Print (MsgCheckingReleases (days_lookback self)) # evs
                      @ [Print (MsgFoundRecent (length unique_tracks))]))))"

section \<open>The playlist publisher: \<open>create_playlist\<close>\<close>

text \<open>
  \<open>for i in range(0, len(track_uris), 100)\<close>, from the index \<open>i\<close> on. The result is the
  exception that ended the loop, if one did.
\<close>

function add_batches :: "spotify \<Rightarrow> string \<Rightarrow> string list \<Rightarrow> nat \<Rightarrow> py_error option \<times> event list" where
  "add_batches api pid track_uris i =
     (if i < length track_uris then
        (let batch = take 100 (drop i track_uris) in
         case playlist_add_items api pid batch of
           Inl e \<Rightarrow> (Some e, [Call (PlaylistAddItems pid batch)])
         | Inr _ \<Rightarrow>
             (case add_batches api pid track_uris (i + 100) of
                (res, evs) \<Rightarrow> (res, Call (PlaylistAddItems pid batch) # evs)))
      else (None, []))"
  by pat_completeness auto
termination
  by (relation "measure (\<lambda>(api, pid, track_uris, i). length track_uris - i)") auto

declare add_batches.simps [simp del]

definition create_playlist :: "tool \<Rightarrow> track_info list \<Rightarrow> string option \<times> event list" where
  "create_playlist self tracks =
     (if tracks = [] then (None, [Print MsgNoTracksToAdd])
      else
        (let create = Call (UserPlaylistCreate (user_id self) (playlist_name self) (description self)) in
         case user_playlist_create (sp self) (user_id self) (playlist_name self) (description self) of
           Inl e \<Rightarrow> (None, [create, Print (MsgCreateError e)])
         | Inr pl \<Rightarrow>
             (case add_batches (sp self) (playlist_id pl) (map ti_uri tracks) 0 of
                (Some e, evs) \<Rightarrow> (None, create # evs @ [Print (MsgCreateError e)])
              | (None, evs) \<Rightarrow>
                  (Some (playlist_id pl),
                   create # evs
                     @ [Print (MsgCreatedPlaylist (playlist_name self) (length tracks)),
                        Print (MsgPlaylistURL (playlist_url pl))]))))"

section \<open>\<open>print_track_summary\<close> and \<open>run\<close>\<close>

definition print_track_summary :: "track_info list \<Rightarrow> event list" where
  "print_track_summary tracks =
     (if tracks = [] then [Print MsgNoNewReleasesFound]
      else
        [Print (MsgSummaryHeader (length tracks)), Print (MsgRule 60)]
        @ concat (map (\<lambda>(i, track).
            [Print (MsgTrackName i (ti_name track)),
             Print (MsgTrackBy (ti_artist track) (ti_album track)),
             Print (MsgTrackReleased (ti_release_date track)),
             Print MsgBlank]) (enumerate 1 (take 10 tracks)))
        @ (if length tracks > 10 then [Print (MsgMoreTracks (length tracks - 10))] else []))"

text \<open>
  \<open>run\<close>, for a run that is not interrupted from the keyboard. Of the calls inside its
  \<open>try\<close>, \<open>get_followed_artists\<close> raises when a request raises and
  \<open>get_recent_releases\<close> raises when line 114 does; the other two catch what their
  requests raise. \<open>if playlist_id:\<close> is false for \<open>None\<close> and for the empty string.
\<close>

definition run :: "tool \<Rightarrow> event list" where
  "run self =
     [Print MsgStarting, Print (MsgRule 50)] @
     (case get_followed_artists self of
        (Inl e, evs0) \<Rightarrow> evs0 @ [Print (MsgUnexpectedError e)]
      | (Inr followed_artists, evs0) \<Rightarrow>
          if followed_artists = [] then evs0 @ [Print MsgNoFollowedArtists]
          else
            (case get_similar_artists self (map artist_id followed_artists) 20 of
               (similar_artists, evs1) \<Rightarrow>
                 (case get_recent_releases self (followed_artists @ similar_artists) of
                    (Inl e, evs2) \<Rightarrow> evs0 @ evs1 @ evs2 @ [Print (MsgUnexpectedError e)]
                  | (Inr recent_tracks, evs2) \<Rightarrow>
                      evs0 @ evs1 @ evs2 @ print_track_summary recent_tracks @
                      (if recent_tracks \<noteq> [] then
                         (case create_playlist self recent_tracks of
                            (Some pid, evs3) \<Rightarrow>
                              evs3 @ [if pid \<noteq> [] then Print MsgSuccess else Print MsgFailed]
                          | (None, evs3) \<Rightarrow> evs3 @ [Print MsgFailed])
                       else [Print MsgNoNewReleasesThisWeek]))))"

section \<open>Notions of the specification\<close>

text \<open>
  Case-insensitive comparison, said without \<open>str.lower\<close>. A capital letter is a
  character with a code from 65 to 90 or from 192 to 222 other than 215; its small form
  has the code 32 higher. Two characters are the same letter when they are equal or one
  is the small form of the other; two strings are equal ignoring case when they have the
  same length and the same letter at every place.
\<close>

definition is_upper_letter :: "char \<Rightarrow> bool" where
  "is_upper_letter c =
     (let n = of_char c :: nat in (65 \<le> n \<and> n \<le> 90) \<or> (192 \<le> n \<and> n \<le> 222 \<and> n \<noteq> 215))"

definition same_letter :: "char \<Rightarrow> char \<Rightarrow> bool" where
  "same_letter c d =
     (c = d \<or> (is_upper_letter c \<and> (of_char d :: nat) = of_char c + 32)
      \<or> (is_upper_letter d \<and> (of_char c :: nat) = of_char d + 32))"

definition equal_ignoring_case :: "string \<Rightarrow> string \<Rightarrow> bool" where
  "equal_ignoring_case s t = list_all2 same_letter s t"

text \<open>
  Two track records are duplicates of each other when their names are equal ignoring case
  and their artist names are equal ignoring case.
\<close>

definition same_song :: "track_info \<Rightarrow> track_info \<Rightarrow> bool" where
  "same_song a b =
     (equal_ignoring_case (ti_name a) (ti_name b) \<and> equal_ignoring_case (ti_artist a) (ti_artist b))"

text \<open>
  The positions of a track list that hold a first occurrence: no earlier position holds a
  duplicate of the track. A track list has no duplicates when no track is a duplicate of
  a later one.
\<close>

definition first_occurrence_positions :: "track_info list \<Rightarrow> nat list" where
  "first_occurrence_positions xs =
     filter (\<lambda>i. \<forall>y\<in>set (take i xs). \<not> same_song y (xs ! i)) [0..<length xs]"

definition no_duplicates :: "track_info list \<Rightarrow> bool" where
  "no_duplicates xs = sorted_wrt (\<lambda>a b. \<not> same_song a b) xs"

section \<open>Sample data for concrete runs\<close>

definition demo_artist :: "string \<Rightarrow> artist" where
  "demo_artist n = \<lparr>artist_id = n, artist_name = n\<rparr>"

definition demo_album :: "string \<Rightarrow> string \<Rightarrow> album" where
  "demo_album n d = \<lparr>album_id = n, album_name = n, album_release_date = d\<rparr>"

definition demo_track :: "string \<Rightarrow> api_track" where
  "demo_track n = \<lparr>track_id = n, track_name = n, track_uri = n\<rparr>"

text \<open>
  A service that knows the albums of the artists and the tracks of the albums listed, and
  raises for every other artist or album; nobody is followed, no artist has related
  artists, and the playlist requests succeed.
\<close>

definition demo_sp :: "(string \<times> album list) list \<Rightarrow> (string \<times> api_track list) list \<Rightarrow> spotify" where
  "demo_sp albums tracks =
     \<lparr>current_user_followed_artists = LastPage [],
      artist_related_artists = (\<lambda>aid. Inr []),
      artist_albums = (\<lambda>aid. case map_of albums aid of Some als \<Rightarrow> Inr als | None \<Rightarrow> Inl SpotifyException),
      album_tracks = (\<lambda>alid. case map_of tracks alid of Some ts \<Rightarrow> Inr ts | None \<Rightarrow> Inl SpotifyException),
      user_playlist_create = (\<lambda>u n d. Inr \<lparr>playlist_id = ''p1'', playlist_url = ''url''\<rparr>),
      playlist_add_items = (\<lambda>pid batch. Inr ())\<rparr>"

text \<open>
  A tool on a given service with a given \<open>max_tracks\<close>, run on 8 January 2024 at 00:00
  with a lookback of 7 days, so that the cutoff is 1 January 2024, 00:00.
\<close>

definition demo_tool :: "spotify \<Rightarrow> int \<Rightarrow> tool" where
  "demo_tool api m =
     \<lparr>sp = api, user_id = None, days_lookback = 7, max_tracks = m,
      now = \<lparr>dt_year = 2024, dt_month = 1, dt_day = 8, dt_micros = 0\<rparr>,
      playlist_name = ''Weekly Discoveries'', description = ''New releases''\<rparr>"

text \<open>
  Three artists: \<open>a\<close> has the albums \<open>x\<close> (1 February 2024) and \<open>y\<close> (15 March 2024),
  \<open>c\<close> has the album \<open>z\<close> (year 2024 only), and the album request for \<open>b\<close> raises. Album
  \<open>x\<close> holds the same title twice, in different case.
\<close>

definition demo_catalogue :: spotify where
  "demo_catalogue =
     demo_sp
       [(''a'', [demo_album ''x'' ''2024-02-01'', demo_album ''y'' ''2024-03-15'']),
        (''c'', [demo_album ''z'' ''2024''])]
       [(''x'', [demo_track ''T1'', demo_track ''t1'', demo_track ''T3'']),
        (''y'', [demo_track ''T2'']),
        (''z'', [demo_track ''T4''])]"

text \<open>The requests among the events of a run, in order.\<close>

fun calls_of :: "event list \<Rightarrow> api_call list" where
  "calls_of [] = []"
| "calls_of (Call c # evs) = c # calls_of evs"
| "calls_of (Print m # evs) = calls_of evs"

text \<open>The batches of the append requests among the events of a run, in order.\<close>

definition added_batches :: "event list \<Rightarrow> string list list" where
  "added_batches evs =
     concat (map (\<lambda>c. case c of PlaylistAddItems pid batch \<Rightarrow> [batch] | _ \<Rightarrow> []) (calls_of evs))"

text \<open>
  A list cut into consecutive batches of 100, the last one shorter when the length is not
  a multiple of 100: batch \<open>k\<close> holds the elements from position \<open>100 * k\<close> on, and there
  are as many batches as the length divided by 100, rounded up.
\<close>

definition batches_of_100 :: "'a list \<Rightarrow> 'a list list" where
  "batches_of_100 xs = map (\<lambda>k. take 100 (drop (100 * k) xs)) [0..<(length xs + 99) div 100]"

text \<open>The same batches from position \<open>i\<close> on.\<close>

definition batches_from :: "'a list \<Rightarrow> nat \<Rightarrow> 'a list list" where
  "batches_from xs i = map (\<lambda>k. take 100 (drop (i + 100 * k) xs)) [0..<(length xs - i + 99) div 100]"

text \<open>
  What holds of \<open>(similar_artists, seen_ids)\<close> throughout \<open>get_similar_artists\<close>: the seen
  identifiers are those followed and those accumulated, the accumulated ones are pairwise
  different and none of them is followed, and no more than the maximum are accumulated.
\<close>

definition similar_inv :: "string list \<Rightarrow> int \<Rightarrow> artist list \<times> string set \<Rightarrow> bool" where
  "similar_inv artist_ids max_similar st =
     (snd st = set artist_ids \<union> artist_id ` set (fst st)
      \<and> distinct (map artist_id (fst st))
      \<and> artist_id ` set (fst st) \<inter> set artist_ids = {}
      \<and> int (length (fst st)) \<le> max 0 max_similar)"

text \<open>
  The tracks the scanner collects from one artist: what one pass of its loop over the
  artists appends to an empty \<open>recent_tracks\<close>.
\<close>

definition artist_tracks :: "spotify \<Rightarrow> datetime \<Rightarrow> artist \<Rightarrow> track_info list" where
  "artist_tracks api cutoff a = fst (scan_artist api cutoff 1 (0, a) [])"

text \<open>
  Five track records of one album: the second is the first in other case (the name is
  \<open>U+00C9\<close>, then \<open>U+00E9\<close>), the third has the name of the second and another artist, and
  the fifth is the fourth in other case.
\<close>

definition demo_song :: "string \<Rightarrow> string \<Rightarrow> string \<Rightarrow> track_info" where
  "demo_song i n a =
     \<lparr>ti_id = i, ti_name = n, ti_artist = a, ti_album = ''x'',
      ti_release_date = ''2024-02-01'', ti_uri = i\<rparr>"

definition demo_songs :: "track_info list" where
  "demo_songs =
     [demo_song ''s1'' [CHR 0xC9] ''Air'', demo_song ''s2'' [CHR 0xE9] ''AIR'',
      demo_song ''s3'' [CHR 0xE9] ''Ayr'', demo_song ''s4'' ''Moon'' ''Air'',
      demo_song ''s5'' ''MOON'' ''air'']"

text \<open>
  Sample catalogues with release dates that are not zero-padded full dates: artist \<open>a\<close>
  with an album dated \<open>2024-12-01\<close> and one dated \<open>2024-3-5\<close>; and artist \<open>a\<close> with an
  album dated \<open>abcd\<close> between two albums with full dates.
\<close>

definition demo_unpadded :: spotify where
  "demo_unpadded =
     demo_sp
       [(''a'', [demo_album ''x'' ''2024-12-01'', demo_album ''y'' ''2024-3-5''])]
       [(''x'', [demo_track ''T1'']), (''y'', [demo_track ''T2''])]"

definition demo_malformed :: spotify where
  "demo_malformed =
     demo_sp
       [(''a'', [demo_album ''x'' ''2024-02-01'', demo_album ''w'' ''abcd'',
                 demo_album ''y'' ''2024-03-15''])]
       [(''x'', [demo_track ''T1'']), (''w'', [demo_track ''T5'']), (''y'', [demo_track ''T2''])]"

text \<open>The two requests that write to the user's account, and those among the events of a run.\<close>

fun is_playlist_write :: "api_call \<Rightarrow> bool" where
  "is_playlist_write (UserPlaylistCreate u n d) = True"
| "is_playlist_write (PlaylistAddItems pid batch) = True"
| "is_playlist_write c = False"

definition playlist_writes :: "event list \<Rightarrow> api_call list" where
  "playlist_writes evs = filter is_playlist_write (calls_of evs)"

text \<open>
  A service for a user who follows the one artist \<open>a\<close>, whose only album \<open>x\<close> is dated
  1 June 2023, before the cutoff of the sample tool.
\<close>

definition demo_quiet :: spotify where
  "demo_quiet =
     (demo_sp [(''a'', [demo_album ''x'' ''2023-06-01''])] [(''x'', [demo_track ''T1''])])
       \<lparr>current_user_followed_artists := LastPage [demo_artist ''a'']\<rparr>"

text \<open>
  The date value the scanner compares with the cutoff: what lines 129 to 138 leave in
  \<open>release_date\<close>, if they leave one.
\<close>

definition release_datetime :: "string \<Rightarrow> datetime option" where
  "release_datetime rd = (case parse_release_date rd of Inr (Some d) \<Rightarrow> Some d | _ \<Rightarrow> None)"

text \<open>
  Two release-date strings in chronological order, newest first: both have a date value,
  and the one of the first is not before the one of the second. A track list is
  chronological when this holds of every two of its release dates, in list order.
\<close>

definition newer_or_same :: "string \<Rightarrow> string \<Rightarrow> bool" where
  "newer_or_same s t =
     (case (release_datetime s, release_datetime t) of
        (Some d, Some e) \<Rightarrow> datetime_ge d e
      | _ \<Rightarrow> False)"

definition chronological :: "track_info list \<Rightarrow> bool" where
  "chronological tracks = sorted_wrt newer_or_same (map ti_release_date tracks)"

text \<open>
  The three forms in which the remote service writes a release date: \<open>YYYY\<close>, \<open>YYYY-MM\<close>
  and \<open>YYYY-MM-DD\<close>, every field with all its digits.
\<close>

fun zero_padded :: "string \<Rightarrow> bool" where
  "zero_padded [a, b, c, d] = (is_digit a \<and> is_digit b \<and> is_digit c \<and> is_digit d)"
| "zero_padded [a, b, c, d, h, m, n] =
     (is_digit a \<and> is_digit b \<and> is_digit c \<and> is_digit d \<and> h = CHR ''-''
      \<and> is_digit m \<and> is_digit n)"
| "zero_padded [a, b, c, d, h, m, n, k, p, q] =
     (is_digit a \<and> is_digit b \<and> is_digit c \<and> is_digit d \<and> h = CHR ''-''
      \<and> is_digit m \<and> is_digit n \<and> k = CHR ''-'' \<and> is_digit p \<and> is_digit q)"
| "zero_padded s = False"

section \<open>Properties of the release scanner and the ranker\<close>


subsection \<open>Removing duplicates\<close>

lemma upper_letter_codes:
  "map (of_char :: char \<Rightarrow> nat) upper_letters = [65..<91] @ [192..<215] @ [216..<223]"
  by (simp add: upper_letters_def)

lemma letter_table:
  "list_all2 (\<lambda>u l. (of_char l :: nat) = of_char u + 32 \<and> is_upper_letter u)
     upper_letters lower_letters"
  by (simp add: upper_letters_def lower_letters_def is_upper_letter_def)

lemma is_upper_letter_listed:
  assumes "is_upper_letter c"
  shows "c \<in> set upper_letters"
proof -
  from assms have "(of_char c :: nat) \<in> {65..<91} \<union> ({192..<215} \<union> {216..<223})"
    unfolding is_upper_letter_def Let_def by auto
  then have "(of_char c :: nat) \<in> set ([65..<91] @ [192..<215] @ [216..<223])"
    by (simp only: set_append set_upt)
  then have "(of_char c :: nat) \<in> of_char ` set upper_letters"
    unfolding upper_letter_codes [symmetric] by simp
  then obtain u where "u \<in> set upper_letters" "(of_char c :: nat) = of_char u" by blast
  then show ?thesis by simp
qed

lemma lower_char_code:
  "(of_char (lower_char c) :: nat) = (if is_upper_letter c then of_char c + 32 else of_char c)"
proof (cases "c \<in> set upper_letters")
  case True
  have len: "length upper_letters = length lower_letters"
    using letter_table by (rule list_all2_lengthD)
  from True len obtain l where l: "map_of (zip upper_letters lower_letters) c = Some l"
    using map_of_zip_is_Some [of upper_letters lower_letters c] by blast
  then have "(c, l) \<in> set (zip upper_letters lower_letters)" by (rule map_of_SomeD)
  with letter_table have "(of_char l :: nat) = of_char c + 32 \<and> is_upper_letter c"
    unfolding list_all2_iff by blast
  then show ?thesis by (simp add: lower_char_def l)
next
  case False
  have len: "length upper_letters = length lower_letters"
    using letter_table by (rule list_all2_lengthD)
  from False len have "map_of (zip upper_letters lower_letters) c = None"
    using map_of_zip_is_None [of upper_letters lower_letters c] by blast
  moreover from False is_upper_letter_listed have "\<not> is_upper_letter c" by blast
  ultimately show ?thesis by (simp add: lower_char_def)
qed

lemma lower_char_eq: "(lower_char c = lower_char d) = same_letter c d"
proof -
  define n m where "n = (of_char c :: nat)" and "m = (of_char d :: nat)"
  have cd: "(c = d) = (n = m)" by (simp add: n_def m_def)
  have "(lower_char c = lower_char d) = ((of_char (lower_char c) :: nat) = of_char (lower_char d))"
    by simp
  also have "\<dots> = same_letter c d"
    unfolding lower_char_code same_letter_def is_upper_letter_def Let_def cd
    unfolding n_def [symmetric] m_def [symmetric] by arith
  finally show ?thesis .
qed

lemma lower_eq: "(lower s = lower t) = equal_ignoring_case s t"
proof (induction s arbitrary: t)
  case Nil
  show ?case by (simp add: lower_def equal_ignoring_case_def)
next
  case (Cons c s)
  show ?case
  proof (cases t)
    case Nil
    then show ?thesis by (simp add: lower_def equal_ignoring_case_def)
  next
    case (Cons d t')
    with Cons.IH [of t'] show ?thesis
      by (simp add: lower_def equal_ignoring_case_def lower_char_eq)
  qed
qed

lemma track_key_eq: "(track_key a = track_key b) = same_song a b"
  by (simp add: track_key_def same_song_def lower_eq)

lemma track_key_seen: "(track_key x \<in> track_key ` set xs) = (\<exists>y\<in>set xs. same_song y x)"
  unfolding image_iff track_key_eq [symmetric] by (auto simp: eq_commute)

lemma dedup_loop_snoc:
  "dedup_loop (xs @ [x]) seen uniq =
     (if track_key x \<in> seen \<union> track_key ` set xs then dedup_loop xs seen uniq
      else dedup_loop xs seen uniq @ [x])"
  by (induction xs arbitrary: seen uniq) auto

lemma dedup_loop_keys: "track_key ` set (dedup_loop xs {} []) = track_key ` set xs"
  by (induction xs rule: rev_induct) (auto simp: dedup_loop_snoc)

lemma dedup_loop_distinct: "distinct (map track_key (dedup_loop xs {} []))"
proof (induction xs rule: rev_induct)
  case Nil
  show ?case by simp
next
  case (snoc x xs)
  show ?case
  proof (cases "track_key x \<in> track_key ` set xs")
    case True
    with snoc show ?thesis by (simp add: dedup_loop_snoc)
  next
    case False
    then have "track_key x \<notin> track_key ` set (dedup_loop xs {} [])"
      unfolding dedup_loop_keys .
    with snoc False show ?thesis by (simp add: dedup_loop_snoc)
  qed
qed

lemma distinct_keys_no_duplicates: "distinct (map track_key xs) = no_duplicates xs"
  unfolding no_duplicates_def track_key_eq [symmetric]
  by (induction xs) auto

lemma first_occurrence_positions_snoc:
  "first_occurrence_positions (xs @ [x]) =
     first_occurrence_positions xs @ (if \<exists>y\<in>set xs. same_song y x then [] else [length xs])"
proof -
  have "filter (\<lambda>i. \<forall>y\<in>set (take i (xs @ [x])). \<not> same_song y ((xs @ [x]) ! i)) [0..<length xs]
      = filter (\<lambda>i. \<forall>y\<in>set (take i xs). \<not> same_song y (xs ! i)) [0..<length xs]"
    by (rule filter_cong) (auto simp: nth_append)
  then show ?thesis by (simp add: first_occurrence_positions_def)
qed

lemma first_occurrence_positions_bound: "i \<in> set (first_occurrence_positions xs) \<Longrightarrow> i < length xs"
  by (simp add: first_occurrence_positions_def)

lemma dedup_loop_first: "dedup_loop xs {} [] = map (nth xs) (first_occurrence_positions xs)"
proof (induction xs rule: rev_induct)
  case Nil
  show ?case by (simp add: first_occurrence_positions_def)
next
  case (snoc x xs)
  have "map (nth (xs @ [x])) (first_occurrence_positions xs) = map (nth xs) (first_occurrence_positions xs)"
    by (rule map_cong) (auto simp: nth_append dest: first_occurrence_positions_bound)
  with snoc show ?case
    by (simp add: dedup_loop_snoc first_occurrence_positions_snoc track_key_seen)
qed

lemma dedup_loop_covers:
  assumes "t \<in> set xs"
  shows "\<exists>u\<in>set (dedup_loop xs {} []). same_song u t"
proof -
  from assms have "track_key t \<in> track_key ` set (dedup_loop xs {} [])"
    unfolding dedup_loop_keys by simp
  then show ?thesis unfolding track_key_seen .
qed

subsection \<open>Sorting and truncating\<close>

lemma sort_reverse_mset: "mset (sort_reverse f xs) = mset xs"
  by (simp add: sort_reverse_def)

lemma slice_to_take: "\<exists>n. slice_to xs m = take n xs"
  by (auto simp: slice_to_def)

lemma final_unfold:
  "cutoff_date self = Inr cutoff \<Longrightarrow>
   fst (get_recent_releases self artists) =
     Inr (slice_to (sort_reverse ti_release_date
        (dedup_loop (fst (artist_loop (sp self) cutoff (length artists)
           (enumerate 0 artists) [])) {} [])) (max_tracks self))"
  by (simp add: get_recent_releases_def Let_def split: prod.splits)

lemma get_recent_releases_raises:
  "cutoff_date self = Inl e \<Longrightarrow>
   get_recent_releases self artists = (Inl e, [Print (MsgCheckingReleases (days_lookback self))])"
  by (simp add: get_recent_releases_def)

lemma final_cases:
  assumes "fst (get_recent_releases self artists) = Inr tracks"
  obtains cutoff where "cutoff_date self = Inr cutoff"
    and "tracks = slice_to (sort_reverse ti_release_date
        (dedup_loop (fst (artist_loop (sp self) cutoff (length artists)
           (enumerate 0 artists) [])) {} [])) (max_tracks self)"
proof (cases "cutoff_date self")
  case (Inl e)
  with assms show ?thesis by (simp add: get_recent_releases_raises)
next
  case (Inr cutoff)
  from final_unfold [OF this, of artists] assms that [OF Inr] show ?thesis by simp
qed

lemma final_distinct:
  assumes "fst (get_recent_releases self artists) = Inr tracks"
  shows "distinct (map track_key tracks)"
proof -
  from assms obtain recent where t:
    "tracks = slice_to (sort_reverse ti_release_date (dedup_loop recent {} [])) (max_tracks self)"
    by (rule final_cases)
  let ?u = "sort_reverse ti_release_date (dedup_loop recent {} [])"
  have "mset (map track_key ?u) = mset (map track_key (dedup_loop recent {} []))"
    by (simp add: sort_reverse_mset)
  then have d: "distinct (map track_key ?u)"
    using dedup_loop_distinct [of recent] by (metis mset_eq_imp_distinct_iff)
  obtain n where n: "slice_to ?u (max_tracks self) = take n ?u"
    using slice_to_take by blast
  have "distinct (take n (map track_key ?u))" using d by (rule distinct_take)
  then show ?thesis by (simp add: t n take_map)
qed

lemma demo_cutoff:
  "cutoff_date (demo_tool api m) = Inr \<lparr>dt_year = 2024, dt_month = 1, dt_day = 1, dt_micros = 0\<rparr>"
  by (simp add: cutoff_date_def demo_tool_def datetime_minus_days_def ymd2ord_def
      days_before_year_def days_before_month_def DAYS_BEFORE_MONTH_def DAYS_IN_MONTH_def
      is_leap_def ord2ymd_def Let_def)

lemmas strptime_defs = strptime_def format_regex_matches_def match_m_def match_d_def
  is_digit_def digit_val_def valid_date_def days_in_month_def is_leap_def

lemma demo_tool_fields:
  "sp (demo_tool api m) = api"
  "user_id (demo_tool api m) = None"
  "days_lookback (demo_tool api m) = 7"
  "max_tracks (demo_tool api m) = m"
  "playlist_name (demo_tool api m) = ''Weekly Discoveries''"
  "description (demo_tool api m) = ''New releases''"
  by (simp_all add: demo_tool_def)

lemmas demo_defs = demo_artist_def demo_album_def demo_track_def demo_sp_def
  demo_cutoff demo_tool_fields demo_catalogue_def

lemmas scan_defs = get_recent_releases_def scan_artist_def parse_release_date_def datetime_ge_def
  make_track_info_def track_key_def lower_def lower_char_def upper_letters_def lower_letters_def
  sort_reverse_def slice_to_def enumerate_eq_zip

lemmas song_defs = demo_song_def demo_songs_def same_song_def equal_ignoring_case_def
  same_letter_def is_upper_letter_def first_occurrence_positions_def no_duplicates_def
  track_key_def lower_def lower_char_def upper_letters_def lower_letters_def

text \<open>
  Claim C2. What the loop that removes duplicates keeps is, in scan order, exactly the
  tracks that have no duplicate before them, where a duplicate is a track with the same
  name and the same artist name, both compared ignoring case. The list it gives has no
  duplicates, every track of the input has a duplicate or itself in it, and the track
  list that \<open>get_recent_releases\<close> returns has no duplicates.
\<close>

theorem dedup_keeps_first_occurrences:
  "dedup_loop recent_tracks {} [] = map (nth recent_tracks) (first_occurrence_positions recent_tracks)
   \<and> no_duplicates (dedup_loop recent_tracks {} [])
   \<and> (\<forall>t\<in>set recent_tracks. \<exists>u\<in>set (dedup_loop recent_tracks {} []). same_song u t)
   \<and> (fst (get_recent_releases self artists) = Inr tracks \<longrightarrow> no_duplicates tracks)"
proof -
  have 1: "dedup_loop recent_tracks {} [] =
      map (nth recent_tracks) (first_occurrence_positions recent_tracks)"
    by (rule dedup_loop_first)
  have 2: "no_duplicates (dedup_loop recent_tracks {} [])"
    unfolding distinct_keys_no_duplicates [symmetric] by (rule dedup_loop_distinct)
  have 3: "\<forall>t\<in>set recent_tracks. \<exists>u\<in>set (dedup_loop recent_tracks {} []). same_song u t"
    using dedup_loop_covers by blast
  have 4: "fst (get_recent_releases self artists) = Inr tracks \<longrightarrow> no_duplicates tracks"
    unfolding distinct_keys_no_duplicates [symmetric] using final_distinct by blast
  from 1 2 3 4 show ?thesis by blast
qed

theorem dedup_keeps_first_occurrences_witness:
  "first_occurrence_positions demo_songs = [0, 2, 3]
   \<and> map ti_id (dedup_loop demo_songs {} []) = [''s1'', ''s3'', ''s4'']
   \<and> no_duplicates (dedup_loop demo_songs {} [])
   \<and> map_sum (\<lambda>e. e) (map ti_name)
        (fst (get_recent_releases (demo_tool demo_catalogue 50) [demo_artist ''a'']))
      = Inr [''T2'', ''T1'', ''T3'']
   \<and> no_duplicates
        (projr (fst (get_recent_releases (demo_tool demo_catalogue 50) [demo_artist ''a''])))"
proof -
  let ?final = "fst (get_recent_releases (demo_tool demo_catalogue 50) [demo_artist ''a''])"
  have p: "first_occurrence_positions demo_songs = [0, 2, 3]"
    by (simp add: song_defs eval_nat_numeral upt_rec [of 0])
  have n: "map_sum (\<lambda>e. e) (map ti_name) ?final = Inr [''T2'', ''T1'', ''T3'']"
    by (simp add: strptime_defs demo_defs scan_defs)
  then have h: "?final = Inr (projr ?final)"
    by (cases ?final) simp_all
  note th = dedup_keeps_first_occurrences [of demo_songs "demo_tool demo_catalogue 50"
      "[demo_artist ''a'']" "projr ?final"]
  have d: "map ti_id (dedup_loop demo_songs {} []) = [''s1'', ''s3'', ''s4'']"
    unfolding th [THEN conjunct1] p by (simp add: demo_songs_def demo_song_def)
  from p d th [THEN conjunct2, THEN conjunct1]
    n th [THEN conjunct2, THEN conjunct2, THEN conjunct2, rule_format, OF h]
  show ?thesis by blast
qed

lemma sort_reverse_sorted: "sorted_wrt (\<lambda>a b. f b \<le> f a) (sort_reverse f xs)"
proof -
  have "sorted (map f (sort_key f (rev xs)))" by (rule sorted_sort_key)
  then have "sorted_wrt (\<lambda>a b. f a \<le> f b) (sort_key f (rev xs))"
    by (simp add: sorted_map)
  then show ?thesis by (simp add: sort_reverse_def sorted_wrt_rev)
qed

lemma slice_to_sorted: "sorted_wrt P xs \<Longrightarrow> sorted_wrt P (slice_to xs m)"
  by (simp add: slice_to_def)

lemma final_sorted:
  assumes "fst (get_recent_releases self artists) = Inr tracks"
  shows "sorted_wrt (\<lambda>a b. ti_release_date b \<le> ti_release_date a) tracks"
proof -
  from assms obtain recent where t:
    "tracks = slice_to (sort_reverse ti_release_date (dedup_loop recent {} [])) (max_tracks self)"
    by (rule final_cases)
  show ?thesis unfolding t by (rule slice_to_sorted) (rule sort_reverse_sorted)
qed

lemma sorted_desc_index:
  assumes "sorted_wrt (\<lambda>a b. ti_release_date b \<le> ti_release_date a) xs"
    and "i < length xs" and "j < length xs"
    and "ti_release_date (xs ! j) < ti_release_date (xs ! i)"
  shows "i < j"
proof (rule ccontr)
  assume "\<not> i < j"
  then have "j < i \<or> j = i" by arith
  then show False
  proof
    assume "j < i"
    with assms(1,2) have "ti_release_date (xs ! i) \<le> ti_release_date (xs ! j)"
      by (simp add: sorted_wrt_iff_nth_less)
    with assms(4) show False by simp
  next
    assume "j = i"
    with assms(4) show False by simp
  qed
qed

text \<open>
  Claim C4. The ranker sorts the deduplicated tracks by the raw release-date string, in
  descending lexicographic order: the sorted list is a permutation of the deduplicated
  one with non-increasing release-date strings, the returned list is a slice of it and is
  ordered in the same way, and a track dated \<open>2024-03-15\<close> stands before every track
  dated \<open>2024-02-01\<close> in the returned list. The method returns a list whenever line 114
  gives a cutoff.
\<close>

theorem ranked_by_raw_date_descending:
  "mset (sort_reverse ti_release_date unique_tracks) = mset unique_tracks
   \<and> sorted_wrt (\<lambda>a b. ti_release_date b \<le> ti_release_date a)
        (sort_reverse ti_release_date unique_tracks)
   \<and> (cutoff_date self = Inr cutoff \<longrightarrow>
        fst (get_recent_releases self artists) =
          Inr (slice_to (sort_reverse ti_release_date
            (dedup_loop (fst (artist_loop (sp self) cutoff (length artists)
               (enumerate 0 artists) [])) {} [])) (max_tracks self)))
   \<and> (fst (get_recent_releases self artists) = Inr tracks \<longrightarrow>
        sorted_wrt (\<lambda>a b. ti_release_date b \<le> ti_release_date a) tracks
        \<and> (\<forall>i j. i < length tracks \<and> j < length tracks
              \<and> ti_release_date (tracks ! i) = ''2024-03-15''
              \<and> ti_release_date (tracks ! j) = ''2024-02-01''
            \<longrightarrow> i < j))"
proof -
  have "i < j"
    if "fst (get_recent_releases self artists) = Inr tracks"
      and "i < length tracks" and "j < length tracks"
      and "ti_release_date (tracks ! i) = ''2024-03-15''"
      and "ti_release_date (tracks ! j) = ''2024-02-01''"
    for i j
  proof (rule sorted_desc_index [OF final_sorted [OF that(1)] that(2) that(3)])
    show "ti_release_date (tracks ! j) < ti_release_date (tracks ! i)"
      by (simp add: that(4) that(5))
  qed
  then show ?thesis
    using sort_reverse_mset sort_reverse_sorted final_unfold final_sorted by blast
qed

theorem ranked_by_raw_date_descending_witness:
  "map_sum (\<lambda>e. e) (map ti_name)
      (fst (get_recent_releases (demo_tool demo_catalogue 50) [demo_artist ''a'']))
     = Inr [''T2'', ''T1'', ''T3'']
   \<and> map_sum (\<lambda>e. e) (map ti_release_date)
      (fst (get_recent_releases (demo_tool demo_catalogue 50) [demo_artist ''a'']))
     = Inr [''2024-03-15'', ''2024-02-01'', ''2024-02-01'']
   \<and> sorted_wrt (\<lambda>a b. ti_release_date b \<le> ti_release_date a)
        (projr (fst (get_recent_releases (demo_tool demo_catalogue 50) [demo_artist ''a''])))"
proof -
  let ?final = "fst (get_recent_releases (demo_tool demo_catalogue 50) [demo_artist ''a''])"
  have n: "map_sum (\<lambda>e. e) (map ti_name) ?final = Inr [''T2'', ''T1'', ''T3'']"
    by (simp add: strptime_defs demo_defs scan_defs)
  have r: "map_sum (\<lambda>e. e) (map ti_release_date) ?final
      = Inr [''2024-03-15'', ''2024-02-01'', ''2024-02-01'']"
    by (simp add: strptime_defs demo_defs scan_defs)
  from n have h: "?final = Inr (projr ?final)"
    by (cases ?final) simp_all
  note th = ranked_by_raw_date_descending [of "[]" "demo_tool demo_catalogue 50" _
      "[demo_artist ''a'']" "projr ?final"]
  from n r th [THEN conjunct2, THEN conjunct2, THEN conjunct2, rule_format, OF h, THEN conjunct1]
  show ?thesis by blast
qed

lemma slice_to_length: "0 \<le> m \<Longrightarrow> int (length (slice_to xs m)) \<le> m"
  by (simp add: slice_to_def)

text \<open>
  Claim C5, as amended. For every list of artists and every configured maximum that is
  not negative, the returned track list has at most that many entries.
\<close>

theorem final_length_le_max_tracks:
  "0 \<le> max_tracks self \<Longrightarrow> fst (get_recent_releases self artists) = Inr tracks \<Longrightarrow>
     int (length tracks) \<le> max_tracks self"
proof -
  assume m: "0 \<le> max_tracks self" and r: "fst (get_recent_releases self artists) = Inr tracks"
  from r obtain recent where t:
    "tracks = slice_to (sort_reverse ti_release_date (dedup_loop recent {} [])) (max_tracks self)"
    by (rule final_cases)
  show ?thesis unfolding t using m by (rule slice_to_length)
qed

theorem final_length_le_max_tracks_witness:
  "map_sum (\<lambda>e. e) length
      (fst (get_recent_releases (demo_tool demo_catalogue 2) [demo_artist ''a''])) = Inr 2
   \<and> max_tracks (demo_tool demo_catalogue 2) = 2
   \<and> int (length (projr (fst (get_recent_releases (demo_tool demo_catalogue 2) [demo_artist ''a'']))))
       \<le> max_tracks (demo_tool demo_catalogue 2)"
proof -
  let ?final = "fst (get_recent_releases (demo_tool demo_catalogue 2) [demo_artist ''a''])"
  have n: "map_sum (\<lambda>e. e) length ?final = Inr 2"
    by (simp add: strptime_defs demo_defs scan_defs)
  then have h: "?final = Inr (projr ?final)"
    by (cases ?final) simp_all
  have m: "max_tracks (demo_tool demo_catalogue 2) = 2"
    by (simp add: demo_tool_def)
  have "0 \<le> max_tracks (demo_tool demo_catalogue 2)"
    by (simp add: demo_tool_def)
  from n m final_length_le_max_tracks [OF this h] show ?thesis by blast
qed

text \<open>
  Claim C5 as stated fails for a negative configured maximum: with \<open>max_tracks = -1\<close> the
  slice drops the last of the three ranked tracks and two remain.
\<close>

theorem final_length_negative_max_counterexample:
  "map_sum (\<lambda>e. e) length
      (fst (get_recent_releases (demo_tool demo_catalogue (- 1)) [demo_artist ''a''])) = Inr 2
   \<and> max_tracks (demo_tool demo_catalogue (- 1)) = - 1
   \<and> \<not> int 2 \<le> max_tracks (demo_tool demo_catalogue (- 1))"
  by (simp add: strptime_defs demo_defs scan_defs)

section \<open>Properties of the playlist publisher\<close>

lemma calls_of_append: "calls_of (xs @ ys) = calls_of xs @ calls_of ys"
  by (induction xs rule: calls_of.induct) auto

lemma added_batches_append: "added_batches (xs @ ys) = added_batches xs @ added_batches ys"
  by (simp add: added_batches_def calls_of_append)

lemma added_batches_Nil: "added_batches [] = []"
  by (simp add: added_batches_def)

lemma added_batches_Print: "added_batches (Print m # evs) = added_batches evs"
  by (simp add: added_batches_def)

lemma added_batches_Call:
  "added_batches (Call c # evs) =
     (case c of PlaylistAddItems pid batch \<Rightarrow> [batch] | _ \<Rightarrow> []) @ added_batches evs"
  by (simp add: added_batches_def)

lemma batches_from_step:
  assumes "i < length xs"
  shows "batches_from xs i = take 100 (drop i xs) # batches_from xs (i + 100)"
proof -
  let ?n = "(length xs - (i + 100) + 99) div 100"
  have n: "(length xs - i + 99) div 100 = Suc ?n"
    using assms by (cases "length xs - i \<le> 100") auto
  have u: "[0..<Suc ?n] = 0 # map Suc [0..<?n]"
    by (simp only: map_Suc_upt upt_conv_Cons [of 0 "Suc ?n"] zero_less_Suc if_True)
  show ?thesis
    unfolding batches_from_def n u by (simp add: add.assoc add.commute o_def)
qed

lemma batches_from_end: "\<not> i < length xs \<Longrightarrow> batches_from xs i = []"
  by (simp add: batches_from_def)

lemma batches_of_100_from: "batches_of_100 xs = batches_from xs 0"
  by (simp add: batches_of_100_def batches_from_def)

lemma concat_batches_from: "concat (batches_from xs i) = drop i xs"
proof (induction "length xs - i" arbitrary: i rule: less_induct)
  case less
  show ?case
  proof (cases "i < length xs")
    case True
    then have "length xs - (i + 100) < length xs - i" by arith
    then have "concat (batches_from xs (i + 100)) = drop (i + 100) xs" by (rule less)
    moreover have "take 100 (drop i xs) @ drop (i + 100) xs = drop i xs"
      by (metis add.commute append_take_drop_id drop_drop)
    ultimately show ?thesis by (simp add: batches_from_step [OF True])
  next
    case False
    then show ?thesis by (simp add: batches_from_end)
  qed
qed

lemma batches_from_length: "b \<in> set (batches_from xs i) \<Longrightarrow> length b \<le> 100"
  by (auto simp: batches_from_def)

lemma add_batches_all_ok:
  assumes ok: "\<And>batch. playlist_add_items api pid batch = Inr ()"
  shows "add_batches api pid uris i =
           (None, map (\<lambda>batch. Call (PlaylistAddItems pid batch)) (batches_from uris i))"
proof (induction "length uris - i" arbitrary: i rule: less_induct)
  case less
  show ?case
  proof (cases "i < length uris")
    case True
    then have "length uris - (i + 100) < length uris - i" by arith
    then have ih: "add_batches api pid uris (i + 100) =
        (None, map (\<lambda>batch. Call (PlaylistAddItems pid batch)) (batches_from uris (i + 100)))"
      by (rule less)
    show ?thesis
      by (subst add_batches.simps) (simp add: True ok ih batches_from_step [OF True])
  next
    case False
    then show ?thesis
      by (subst add_batches.simps) (simp add: batches_from_end)
  qed
qed

lemma calls_of_map_Call: "calls_of (map (\<lambda>x. Call (f x)) xs) = map f xs"
  by (induction xs) auto

lemma added_batches_map:
  "added_batches (map (\<lambda>batch. Call (PlaylistAddItems pid batch)) bs) = bs"
  by (induction bs) (auto simp: added_batches_def)

lemma batches_of_100_150:
  assumes "length xs = 150"
  shows "batches_of_100 xs = [take 100 xs, drop 100 xs]"
proof -
  have "[0..<(150 + 99) div 100] = [0, Suc 0]"
    by (simp add: upt_conv_Cons)
  then show ?thesis using assms by (simp add: batches_of_100_def)
qed

text \<open>
  Claim C8. For a non-empty track list, when the playlist is created and no append
  request raises, \<open>create_playlist\<close> returns the playlist's identifier, and its requests
  are the creation followed by one append request per batch of 100 consecutive track
  URIs: as many requests as the number of tracks divided by 100, rounded up, none with
  more than 100 URIs, and together they carry the URI list in its order. For 150 tracks
  these are two requests, with the first 100 and the last 50 URIs.
\<close>

theorem create_playlist_batches:
  assumes "tracks \<noteq> []"
    and "user_playlist_create (sp self) (user_id self) (playlist_name self) (description self) = Inr pl"
    and "\<forall>batch. playlist_add_items (sp self) (playlist_id pl) batch = Inr ()"
  shows "fst (create_playlist self tracks) = Some (playlist_id pl)
    \<and> calls_of (snd (create_playlist self tracks)) =
        UserPlaylistCreate (user_id self) (playlist_name self) (description self)
          # map (PlaylistAddItems (playlist_id pl)) (batches_of_100 (map ti_uri tracks))
    \<and> added_batches (snd (create_playlist self tracks)) = batches_of_100 (map ti_uri tracks)
    \<and> length (added_batches (snd (create_playlist self tracks))) = (length tracks + 99) div 100
    \<and> list_all (\<lambda>batch. length batch \<le> 100) (added_batches (snd (create_playlist self tracks)))
    \<and> concat (added_batches (snd (create_playlist self tracks))) = map ti_uri tracks
    \<and> (if length tracks = 150
       then added_batches (snd (create_playlist self tracks))
              = [take 100 (map ti_uri tracks), drop 100 (map ti_uri tracks)]
            \<and> map length (added_batches (snd (create_playlist self tracks))) = [100, 50]
       else True)"
proof -
  let ?uris = "map ti_uri tracks"
  let ?create = "Call (UserPlaylistCreate (user_id self) (playlist_name self) (description self))"
  have ab: "add_batches (sp self) (playlist_id pl) ?uris 0 =
      (None, map (\<lambda>batch. Call (PlaylistAddItems (playlist_id pl) batch)) (batches_of_100 ?uris))"
    using assms(3) by (simp add: add_batches_all_ok batches_of_100_from)
  have cp: "create_playlist self tracks =
      (Some (playlist_id pl),
       ?create # map (\<lambda>batch. Call (PlaylistAddItems (playlist_id pl) batch)) (batches_of_100 ?uris)
         @ [Print (MsgCreatedPlaylist (playlist_name self) (length tracks)),
            Print (MsgPlaylistURL (playlist_url pl))])"
    using assms(1,2) by (simp add: create_playlist_def ab Let_def)
  have calls: "calls_of (snd (create_playlist self tracks)) =
      UserPlaylistCreate (user_id self) (playlist_name self) (description self)
        # map (PlaylistAddItems (playlist_id pl)) (batches_of_100 ?uris)"
    by (simp add: cp calls_of_append calls_of_map_Call)
  have added: "added_batches (snd (create_playlist self tracks)) = batches_of_100 ?uris"
    by (simp add: cp added_batches_append added_batches_map added_batches_Call
        added_batches_Print added_batches_Nil)
  have len: "length (batches_of_100 ?uris) = (length tracks + 99) div 100"
    by (simp add: batches_of_100_def)
  have le: "list_all (\<lambda>batch. length batch \<le> 100) (batches_of_100 ?uris)"
    by (simp add: list_all_iff batches_of_100_from batches_from_length)
  have cc: "concat (batches_of_100 ?uris) = ?uris"
    by (simp add: batches_of_100_from concat_batches_from)
  have l150: "batches_of_100 ?uris = [take 100 ?uris, drop 100 ?uris]
      \<and> map length (batches_of_100 ?uris) = [100, 50]" if "length tracks = 150"
    using that batches_of_100_150 [of ?uris] by simp
  have res: "fst (create_playlist self tracks) = Some (playlist_id pl)"
    by (simp add: cp)
  show ?thesis
    unfolding added using res calls len le cc l150 by simp
qed

theorem create_playlist_batches_witness:
  "added_batches (snd (create_playlist (demo_tool demo_catalogue 200)
      (replicate 150 (make_track_info (demo_artist ''a'') (demo_album ''x'' ''2024-02-01'') (demo_track ''T1'')))))
     = [replicate 100 ''T1'', replicate 50 ''T1'']
   \<and> fst (create_playlist (demo_tool demo_catalogue 200)
      (replicate 150 (make_track_info (demo_artist ''a'') (demo_album ''x'' ''2024-02-01'') (demo_track ''T1''))))
     = Some ''p1''"
proof -
  let ?t = "make_track_info (demo_artist ''a'') (demo_album ''x'' ''2024-02-01'') (demo_track ''T1'')"
  let ?tool = "demo_tool demo_catalogue 200"
  let ?pl = "\<lparr>playlist_id = ''p1'', playlist_url = ''url''\<rparr>"
  have h1: "replicate 150 ?t \<noteq> []" by simp
  have h2: "user_playlist_create (sp ?tool) (user_id ?tool) (playlist_name ?tool) (description ?tool) = Inr ?pl"
    by (simp add: demo_defs)
  have h3: "\<forall>batch. playlist_add_items (sp ?tool) (playlist_id ?pl) batch = Inr ()"
    by (simp add: demo_defs)
  note th = create_playlist_batches [OF h1 h2 h3]
  note last = th [THEN conjunct2, THEN conjunct2, THEN conjunct2, THEN conjunct2,
    THEN conjunct2, THEN conjunct2]
  have a: "added_batches (snd (create_playlist ?tool (replicate 150 ?t)))
      = [replicate 100 ''T1'', replicate 50 ''T1'']"
    using last by (simp add: make_track_info_def demo_track_def)
  have b: "fst (create_playlist ?tool (replicate 150 ?t)) = Some ''p1''"
    using th [THEN conjunct1] by simp
  from a b show ?thesis by blast
qed

section \<open>Properties of the related-artist expander\<close>

lemma related_loop_inv:
  "similar_inv ids m st \<Longrightarrow> similar_inv ids m (related_loop m related st)"
proof (induction related arbitrary: st)
  case Nil
  then show ?case by simp
next
  case (Cons a related)
  obtain similar seen where st: "st = (similar, seen)" by (cases st)
  show ?case
  proof (cases "artist_id a \<notin> seen \<and> int (length similar) < m")
    case True
    have "similar_inv ids m (similar @ [a], insert (artist_id a) seen)"
      using Cons.prems True unfolding st similar_inv_def by auto
    then show ?thesis using True by (simp add: st Cons.IH)
  next
    case False
    then show ?thesis using Cons.prems by (auto simp: st Cons.IH)
  qed
qed

lemma similar_step_inv:
  "similar_inv ids m st \<Longrightarrow> similar_inv ids m (fst (similar_step api m n ia st))"
  by (auto simp: similar_step_def related_loop_inv split: prod.splits sum.splits)

lemma similar_step_calls:
  "calls_of (snd (similar_step api m n ia st)) = [ArtistRelatedArtists (snd ia)]"
  by (auto simp: similar_step_def split: prod.splits sum.splits)

lemma similar_loop_Cons_fst:
  "fst (similar_loop api m n (ia # ias) st) =
     fst (similar_loop api m n ias (fst (similar_step api m n ia st)))"
  by (simp split: prod.splits)

lemma similar_loop_Cons_snd:
  "snd (similar_loop api m n (ia # ias) st) =
     snd (similar_step api m n ia st) @ snd (similar_loop api m n ias (fst (similar_step api m n ia st)))"
  by (simp split: prod.splits)

lemma map_snd_enumerate_fun: "map (\<lambda>ia. f (snd ia)) (enumerate n xs) = map f xs"
  by (induction xs arbitrary: n) auto

lemma similar_loop_inv:
  "similar_inv ids m st \<Longrightarrow> similar_inv ids m (fst (similar_loop api m n ias st))"
proof (induction ias arbitrary: st)
  case Nil
  then show ?case by simp
next
  case (Cons ia ias)
  have "similar_inv ids m (fst (similar_step api m n ia st))"
    using Cons.prems by (rule similar_step_inv)
  then have "similar_inv ids m (fst (similar_loop api m n ias (fst (similar_step api m n ia st))))"
    by (rule Cons.IH)
  then show ?case by (simp only: similar_loop_Cons_fst)
qed

lemma similar_loop_calls:
  "calls_of (snd (similar_loop api m n ias st)) = map (\<lambda>ia. ArtistRelatedArtists (snd ia)) ias"
proof (induction ias arbitrary: st)
  case Nil
  show ?case by simp
next
  case (Cons ia ias)
  have "calls_of (snd (similar_loop api m n ias (fst (similar_step api m n ia st))))
      = map (\<lambda>ia. ArtistRelatedArtists (snd ia)) ias"
    by (rule Cons.IH)
  moreover note similar_step_calls [of api m n ia st]
  ultimately show ?case by (simp add: similar_loop_Cons_snd calls_of_append del: similar_loop.simps)
qed

lemma similar_inv_start: "similar_inv ids m ([], set ids)"
  by (simp add: similar_inv_def)

lemma get_similar_artists_fst:
  "fst (get_similar_artists self ids m) =
     fst (fst (similar_loop (sp self) m (min 10 (length ids))
       (enumerate 0 (take (min 10 (length ids)) ids)) ([], set ids)))"
  by (simp add: get_similar_artists_def Let_def split: prod.splits)

lemma get_similar_artists_calls:
  "calls_of (snd (get_similar_artists self ids m)) =
     map ArtistRelatedArtists (take (min 10 (length ids)) ids)"
proof -
  have "calls_of (snd (get_similar_artists self ids m)) =
      calls_of (snd (similar_loop (sp self) m (min 10 (length ids))
        (enumerate 0 (take (min 10 (length ids)) ids)) ([], set ids)))"
    by (simp add: get_similar_artists_def Let_def calls_of_append split: prod.splits)
  also have "\<dots> = map ArtistRelatedArtists (take (min 10 (length ids)) ids)"
    by (simp only: similar_loop_calls map_snd_enumerate_fun)
  finally show ?thesis .
qed

lemma get_similar_artists_inv:
  "similar_inv ids m (fst (get_similar_artists self ids m), 
     set ids \<union> artist_id ` set (fst (get_similar_artists self ids m)))"
proof -
  let ?r = "fst (similar_loop (sp self) m (min 10 (length ids))
       (enumerate 0 (take (min 10 (length ids)) ids)) ([], set ids))"
  have "similar_inv ids m ?r"
    using similar_inv_start by (rule similar_loop_inv)
  then show ?thesis
    unfolding get_similar_artists_fst by (simp add: similar_inv_def)
qed

text \<open>
  Claim C9. For every list of followed-artist identifiers, the expander requests the
  related artists of the first \<open>min 10 (length artist_ids)\<close> identifiers, one request
  each and in order, and of no others; the identifiers of the artists it returns are
  pairwise different and none of them is in the input; and it returns at most
  \<open>max_similar\<close> artists (none when \<open>max_similar\<close> is negative), so at most 20 with the
  default.
\<close>

theorem get_similar_artists_bounded_and_fresh:
  "calls_of (snd (get_similar_artists self artist_ids max_similar)) =
     map ArtistRelatedArtists (take (min 10 (length artist_ids)) artist_ids)
   \<and> length (calls_of (snd (get_similar_artists self artist_ids max_similar))) \<le> 10
   \<and> distinct (map artist_id (fst (get_similar_artists self artist_ids max_similar)))
   \<and> artist_id ` set (fst (get_similar_artists self artist_ids max_similar)) \<inter> set artist_ids = {}
   \<and> int (length (fst (get_similar_artists self artist_ids max_similar))) \<le> max 0 max_similar
   \<and> length (fst (get_similar_artists self artist_ids 20)) \<le> 20"
proof -
  have "length (fst (get_similar_artists self artist_ids 20)) \<le> 20"
    using get_similar_artists_inv [of artist_ids 20 self] by (simp add: similar_inv_def)
  then show ?thesis
    using get_similar_artists_inv [of artist_ids max_similar self]
    by (simp add: get_similar_artists_calls similar_inv_def)
qed

section \<open>Properties of the date parsing\<close>

lemma match_Y_length: "(v, r) \<in> set (match_Y s) \<Longrightarrow> length s = length r + 4"
  by (induction s rule: match_Y.induct) (auto split: if_splits)

lemma match_dash_length: "r \<in> set (match_dash s) \<Longrightarrow> length s = length r + 1"
  by (induction s rule: match_dash.induct) (auto split: if_splits)

lemma two_chars_length: "(v, r) \<in> set (two_chars as bs s) \<Longrightarrow> length s = length r + 2"
  by (induction as bs s rule: two_chars.induct) (auto split: if_splits)

lemma one_char_length: "(v, r) \<in> set (one_char as s) \<Longrightarrow> length s = length r + 1"
  by (induction as s rule: one_char.induct) (auto split: if_splits)

lemma match_m_length:
  "(v, r) \<in> set (match_m s) \<Longrightarrow> length s = length r + 1 \<or> length s = length r + 2"
  by (auto simp: match_m_def dest: two_chars_length one_char_length)

lemma match_d_length:
  "(v, r) \<in> set (match_d s) \<Longrightarrow> length s = length r + 1 \<or> length s = length r + 2"
  by (auto simp: match_d_def dest: two_chars_length one_char_length)

lemma format_regex_matches_length:
  assumes "(ymd, r) \<in> set (format_regex_matches s)"
  shows "length r + 8 \<le> length s \<and> length s \<le> length r + 10"
proof -
  from assms obtain y r1 r2 m r3 r4 d where
    "(y, r1) \<in> set (match_Y s)" "r2 \<in> set (match_dash r1)" "(m, r3) \<in> set (match_m r2)"
    "r4 \<in> set (match_dash r3)" "(d, r) \<in> set (match_d r4)"
    by (auto simp: format_regex_matches_def)
  then show ?thesis
    using match_Y_length [of y r1 s] match_dash_length [of r2 r1] match_m_length [of m r3 r2]
      match_dash_length [of r4 r3] match_d_length [of d r r4]
    by arith
qed

lemma strptime_length:
  assumes "strptime s = Inr d"
  shows "8 \<le> length s \<and> length s \<le> 10"
proof -
  from assms obtain ymd ms where ms: "format_regex_matches s = (ymd, []) # ms"
    by (auto simp: strptime_def split: list.splits if_splits)
  then have "(ymd, []) \<in> set (format_regex_matches s)" by simp
  from format_regex_matches_length [OF this] show ?thesis by simp
qed

lemma strptime_error: "strptime s = Inl e \<Longrightarrow> e = ValueError"
  by (auto simp: strptime_def split: list.splits if_splits)

lemma strptime_short: "length s < 8 \<Longrightarrow> strptime s = Inl ValueError"
proof -
  assume l: "length s < 8"
  show ?thesis
  proof (cases "strptime s")
    case (Inl e)
    then show ?thesis using strptime_error by blast
  next
    case (Inr d)
    from strptime_length [OF this] l show ?thesis by simp
  qed
qed

lemma parse_release_date_4:
  "length rd = 4 \<Longrightarrow> parse_release_date rd =
     (case strptime (rd @ ''-01-01'') of Inr d \<Rightarrow> Inr (Some d) | Inl e \<Rightarrow> Inl e)"
  by (simp add: parse_release_date_def strptime_short)

lemma parse_release_date_7:
  "length rd = 7 \<Longrightarrow> parse_release_date rd =
     (case strptime (rd @ ''-01'') of Inr d \<Rightarrow> Inr (Some d) | Inl e \<Rightarrow> Inl e)"
  by (simp add: parse_release_date_def strptime_short)

lemma parse_release_date_full:
  "strptime rd = Inr d \<Longrightarrow> parse_release_date rd = Inr (Some d)"
  by (simp add: parse_release_date_def)

lemma parse_release_date_other:
  "strptime rd = Inl e \<Longrightarrow> length rd \<noteq> 4 \<Longrightarrow> length rd \<noteq> 7 \<Longrightarrow> parse_release_date rd = Inr None"
  using strptime_error [of rd e] by (simp add: parse_release_date_def)

section \<open>Properties of the release scanner\<close>

lemma album_loop_skip:
  "parse_release_date (album_release_date al) = Inr None \<Longrightarrow>
     album_loop api cutoff a (al # rest) recent = album_loop api cutoff a rest recent"
  by simp

lemma album_loop_raise:
  "parse_release_date (album_release_date al) = Inl e \<Longrightarrow>
     album_loop api cutoff a (al # rest) recent = ((recent, Some e), [])"
  by simp

lemma album_loop_acc3:
  "fst (fst (album_loop api cutoff a als recent)) = recent @ fst (fst (album_loop api cutoff a als []))
   \<and> snd (fst (album_loop api cutoff a als recent)) = snd (fst (album_loop api cutoff a als []))
   \<and> snd (album_loop api cutoff a als recent) = snd (album_loop api cutoff a als [])"
proof (induction als arbitrary: recent)
  case Nil
  show ?case by simp
next
  case (Cons al als)
  show ?case
  proof (cases "parse_release_date (album_release_date al)")
    case (Inl e)
    then show ?thesis by simp
  next
    case (Inr od)
    note p = Inr
    show ?thesis
    proof (cases od)
      case None
      with p Cons.IH [of recent] show ?thesis by simp
    next
      case (Some d)
      show ?thesis
      proof (cases "datetime_ge d cutoff")
        case False
        with p Some Cons.IH [of recent] show ?thesis by simp
      next
        case True
        show ?thesis
        proof (cases "album_tracks api (album_id al)")
          case (Inl e)
          with p Some True show ?thesis by simp
        next
          case (Inr tracks)
          let ?new = "map (make_track_info a al) tracks"
          note ih1 = Cons.IH [of "recent @ ?new"]
          note ih2 = Cons.IH [of "?new"]
          have l: "album_loop api cutoff a (al # als) rc =
              (fst (album_loop api cutoff a als (rc @ ?new)),
               Call (AlbumTracks (album_id al)) # snd (album_loop api cutoff a als (rc @ ?new)))" for rc
            using p Some True Inr by (simp split: prod.splits)
          show ?thesis
            unfolding l using ih1 ih2 by simp
        qed
      qed
    qed
  qed
qed

lemma album_loop_acc:
  "album_loop api cutoff a als recent =
     ((recent @ fst (fst (album_loop api cutoff a als [])), snd (fst (album_loop api cutoff a als []))),
      snd (album_loop api cutoff a als []))"
  using album_loop_acc3 [of api cutoff a als recent] by (simp add: prod_eq_iff)

lemma album_loop_append:
  "album_loop api cutoff a (pre @ post) recent =
     (case album_loop api cutoff a pre recent of
        ((r, Some e), evs) \<Rightarrow> ((r, Some e), evs)
      | ((r, None), evs) \<Rightarrow>
          (fst (album_loop api cutoff a post r), evs @ snd (album_loop api cutoff a post r)))"
proof (induction pre arbitrary: recent)
  case Nil
  show ?case by simp
next
  case (Cons al pre)
  show ?case
    by (simp add: Cons.IH split: sum.splits option.splits prod.splits)
qed

lemma is_digit_val: "is_digit c \<Longrightarrow> digit_val c \<le> 9"
  by (auto simp: is_digit_def digit_val_def)

lemma strptime_year_only:
  assumes "is_digit a" "is_digit b" "is_digit c" "is_digit d"
    and "0 < 1000 * digit_val a + 100 * digit_val b + 10 * digit_val c + digit_val d"
  shows "strptime ([a, b, c, d] @ ''-01-01'') =
           Inr \<lparr>dt_year = 1000 * digit_val a + 100 * digit_val b + 10 * digit_val c + digit_val d,
                dt_month = 1, dt_day = 1, dt_micros = 0\<rparr>"
proof -
  let ?y = "1000 * digit_val a + 100 * digit_val b + 10 * digit_val c + digit_val d"
  have le: "?y \<le> 9999"
    using assms(1-4) [THEN is_digit_val] by arith
  have ge: "Suc 0 \<le> ?y"
    using assms(5) by arith
  have v: "valid_date ?y 1 1"
    using le ge by (simp add: valid_date_def days_in_month_def)
  have m: "match_m ''01-01'' = [(1, ''-01'')]"
    by (simp add: match_m_def digit_val_def)
  have dd: "match_d ''01'' = [(1, [])]"
    by (simp add: match_d_def digit_val_def)
  have "format_regex_matches ([a, b, c, d] @ ''-01-01'') = [((?y, 1, 1), [])]"
    using assms(1-4) by (simp add: format_regex_matches_def m dd)
  then show ?thesis
    using v by (simp add: strptime_def)
qed

text \<open>
  Claim C1, as amended. Before the comparison with the cutoff, a release-date string of
  4 characters is read as the full date written by appending \<open>-01-01\<close> to it (for four
  digits \<open>YYYY\<close> with a year of at least 1: 1 January of that year), a string of 7
  characters as the full date written by appending \<open>-01\<close>; a string that the full-date
  parse accepts, which has 8 to 10 characters, is used as it is; and an album whose string
  the full-date parse rejects and whose length is neither 4 nor 7 is skipped: the loop
  goes on with the next album, nothing is appended and no request is sent.
\<close>

theorem release_date_normalization:
  "(length rd = 4 \<longrightarrow>
      parse_release_date rd =
        (case strptime (rd @ ''-01-01'') of Inr d \<Rightarrow> Inr (Some d) | Inl e \<Rightarrow> Inl e))
   \<and> (is_digit y1 \<and> is_digit y2 \<and> is_digit y3 \<and> is_digit y4
        \<and> 0 < 1000 * digit_val y1 + 100 * digit_val y2 + 10 * digit_val y3 + digit_val y4 \<longrightarrow>
      parse_release_date [y1, y2, y3, y4] =
        Inr (Some \<lparr>dt_year = 1000 * digit_val y1 + 100 * digit_val y2 + 10 * digit_val y3 + digit_val y4,
                   dt_month = 1, dt_day = 1, dt_micros = 0\<rparr>))
   \<and> (length rd = 7 \<longrightarrow>
      parse_release_date rd =
        (case strptime (rd @ ''-01'') of Inr d \<Rightarrow> Inr (Some d) | Inl e \<Rightarrow> Inl e))
   \<and> (strptime rd = Inr d \<longrightarrow>
      parse_release_date rd = Inr (Some d) \<and> 8 \<le> length rd \<and> length rd \<le> 10)
   \<and> (strptime rd = Inl e \<and> length rd \<noteq> 4 \<and> length rd \<noteq> 7 \<and> album_release_date al = rd \<longrightarrow>
      parse_release_date rd = Inr None
      \<and> album_loop api cutoff a (al # rest) recent = album_loop api cutoff a rest recent)"
proof -
  have year: "parse_release_date [y1, y2, y3, y4] =
        Inr (Some \<lparr>dt_year = 1000 * digit_val y1 + 100 * digit_val y2 + 10 * digit_val y3 + digit_val y4,
                   dt_month = 1, dt_day = 1, dt_micros = 0\<rparr>)"
    if "is_digit y1" "is_digit y2" "is_digit y3" "is_digit y4"
      "0 < 1000 * digit_val y1 + 100 * digit_val y2 + 10 * digit_val y3 + digit_val y4"
    using strptime_year_only [OF that] parse_release_date_4 [of "[y1, y2, y3, y4]"] by simp
  have other: "parse_release_date rd = Inr None
      \<and> album_loop api cutoff a (al # rest) recent = album_loop api cutoff a rest recent"
    if "strptime rd = Inl e" "length rd \<noteq> 4" "length rd \<noteq> 7" "album_release_date al = rd"
    using parse_release_date_other [OF that(1-3)] that(4) by simp
  have c1: "length rd = 4 \<longrightarrow>
      parse_release_date rd =
        (case strptime (rd @ ''-01-01'') of Inr d \<Rightarrow> Inr (Some d) | Inl e \<Rightarrow> Inl e)"
    using parse_release_date_4 by blast
  have c2: "is_digit y1 \<and> is_digit y2 \<and> is_digit y3 \<and> is_digit y4
        \<and> 0 < 1000 * digit_val y1 + 100 * digit_val y2 + 10 * digit_val y3 + digit_val y4 \<longrightarrow>
      parse_release_date [y1, y2, y3, y4] =
        Inr (Some \<lparr>dt_year = 1000 * digit_val y1 + 100 * digit_val y2 + 10 * digit_val y3 + digit_val y4,
                   dt_month = 1, dt_day = 1, dt_micros = 0\<rparr>)"
    using year by simp
  have c3: "length rd = 7 \<longrightarrow>
      parse_release_date rd =
        (case strptime (rd @ ''-01'') of Inr d \<Rightarrow> Inr (Some d) | Inl e \<Rightarrow> Inl e)"
    using parse_release_date_7 by blast
  have c4: "strptime rd = Inr d \<longrightarrow>
      parse_release_date rd = Inr (Some d) \<and> 8 \<le> length rd \<and> length rd \<le> 10"
    using parse_release_date_full strptime_length by blast
  have c5: "strptime rd = Inl e \<and> length rd \<noteq> 4 \<and> length rd \<noteq> 7 \<and> album_release_date al = rd \<longrightarrow>
      parse_release_date rd = Inr None
      \<and> album_loop api cutoff a (al # rest) recent = album_loop api cutoff a rest recent"
    using other by simp
  show ?thesis
    by (intro conjI) (rule c1, rule c2, rule c3, rule c4, rule c5)
qed

theorem release_date_normalization_witness:
  "parse_release_date ''2024'' =
     Inr (Some \<lparr>dt_year = 2024, dt_month = 1, dt_day = 1, dt_micros = 0\<rparr>)
   \<and> parse_release_date ''2024-03'' =
     Inr (Some \<lparr>dt_year = 2024, dt_month = 3, dt_day = 1, dt_micros = 0\<rparr>)
   \<and> parse_release_date ''2024-03-15'' =
     Inr (Some \<lparr>dt_year = 2024, dt_month = 3, dt_day = 15, dt_micros = 0\<rparr>)
   \<and> parse_release_date ''20240315'' = Inr None"
proof -
  note n = release_date_normalization
  have a: "parse_release_date ''2024'' =
      Inr (Some \<lparr>dt_year = 2024, dt_month = 1, dt_day = 1, dt_micros = 0\<rparr>)"
    using n [where rd = "''2024''", THEN conjunct1] by (simp add: strptime_defs)
  have b: "parse_release_date ''2024-03'' =
      Inr (Some \<lparr>dt_year = 2024, dt_month = 3, dt_day = 1, dt_micros = 0\<rparr>)"
    using n [where rd = "''2024-03''", THEN conjunct2, THEN conjunct2, THEN conjunct1]
    by (simp add: strptime_defs)
  have s: "strptime ''2024-03-15'' = Inr \<lparr>dt_year = 2024, dt_month = 3, dt_day = 15, dt_micros = 0\<rparr>"
    by (simp add: strptime_defs)
  have c: "parse_release_date ''2024-03-15'' =
      Inr (Some \<lparr>dt_year = 2024, dt_month = 3, dt_day = 15, dt_micros = 0\<rparr>)"
    using n [where rd = "''2024-03-15''", THEN conjunct2, THEN conjunct2, THEN conjunct2,
        THEN conjunct1] s
    by simp
  have t: "strptime ''20240315'' = Inl ValueError"
    by (simp add: strptime_defs)
  have d: "parse_release_date ''20240315'' = Inr None"
    using n [where rd = "''20240315''" and al = "demo_album ''x'' ''20240315''" and e = ValueError,
        THEN conjunct2, THEN conjunct2, THEN conjunct2, THEN conjunct2] t
    by (simp add: demo_album_def)
  from a b c d show ?thesis by blast
qed

text \<open>
  Claim C1 as stated fails for a string of another length that the full-date parse
  accepts: \<open>2024-3-5\<close> has 8 characters, is read as 5 March 2024, and its album
  contributes its track.
\<close>

theorem unpadded_date_not_skipped_counterexample:
  "length ''2024-3-5'' = 8
   \<and> parse_release_date ''2024-3-5'' =
       Inr (Some \<lparr>dt_year = 2024, dt_month = 3, dt_day = 5, dt_micros = 0\<rparr>)
   \<and> map ti_name (fst (fst (album_loop demo_unpadded (projr (cutoff_date (demo_tool demo_unpadded 50)))
        (demo_artist ''a'') [demo_album ''y'' ''2024-3-5''] []))) = [''T2'']"
  by (simp add: strptime_defs demo_defs demo_unpadded_def parse_release_date_def datetime_ge_def
      make_track_info_def)

section \<open>A release date that raises\<close>

text \<open>
  Claim C10. When the release-date string of an album has 4 or 7 characters and the
  string padded to a full date does not parse, as for \<open>abcd\<close>, the parsing raises
  \<open>ValueError\<close>, which ends the loop over the artist's albums: the pass for this artist
  gives what the albums before this one had appended, sends no request for this album
  or a later one, and ends with the error message for the artist.
\<close>

theorem malformed_short_date_abandons_artist:
  assumes "length (album_release_date al) = 4 \<or> length (album_release_date al) = 7"
    and "strptime (album_release_date al
           @ (if length (album_release_date al) = 4 then ''-01-01'' else ''-01'')) = Inl ValueError"
    and "artist_albums api (artist_id a) = Inr (pre @ al # rest)"
    and "album_loop api cutoff a pre recent = ((recent', None), evs)"
  shows "parse_release_date (album_release_date al) = Inl ValueError
    \<and> album_loop api cutoff a (pre @ al # rest) recent = ((recent', Some ValueError), evs)
    \<and> scan_artist api cutoff n (i, a) recent =
        (recent', Call (ArtistAlbums (artist_id a)) # evs
           @ [Print (MsgReleasesError (artist_name a) ValueError)])
    \<and> recent' = recent @ fst (fst (album_loop api cutoff a pre []))"
proof -
  have p: "parse_release_date (album_release_date al) = Inl ValueError"
    using assms(1,2) parse_release_date_4 [of "album_release_date al"]
      parse_release_date_7 [of "album_release_date al"]
    by auto
  have l: "album_loop api cutoff a (pre @ al # rest) recent = ((recent', Some ValueError), evs)"
    by (simp add: album_loop_append assms(4) album_loop_raise [OF p] del: album_loop.simps)
  have s: "scan_artist api cutoff n (i, a) recent =
        (recent', Call (ArtistAlbums (artist_id a)) # evs
           @ [Print (MsgReleasesError (artist_name a) ValueError)])"
    by (simp add: scan_artist_def assms(3) l del: album_loop.simps)
  have r: "recent' = recent @ fst (fst (album_loop api cutoff a pre []))"
    using album_loop_acc3 [of api cutoff a pre recent] assms(4) by simp
  from p l s r show ?thesis by blast
qed

theorem malformed_short_date_abandons_artist_witness:
  "parse_release_date ''abcd'' = Inl ValueError
   \<and> map ti_name (fst (scan_artist demo_malformed (projr (cutoff_date (demo_tool demo_malformed 50))) 1
        (0, demo_artist ''a'') [])) = [''T1'']
   \<and> snd (scan_artist demo_malformed (projr (cutoff_date (demo_tool demo_malformed 50))) 1
        (0, demo_artist ''a'') []) =
       [Call (ArtistAlbums ''a''), Call (AlbumTracks ''x''),
        Print (MsgReleasesError ''a'' ValueError)]"
proof -
  let ?al = "demo_album ''w'' ''abcd''"
  let ?a = "demo_artist ''a''"
  let ?cutoff = "projr (cutoff_date (demo_tool demo_malformed 50))"
  let ?t = "make_track_info ?a (demo_album ''x'' ''2024-02-01'') (demo_track ''T1'')"
  have h1: "length (album_release_date ?al) = 4 \<or> length (album_release_date ?al) = 7"
    by (simp add: demo_album_def)
  have h2: "strptime (album_release_date ?al
      @ (if length (album_release_date ?al) = 4 then ''-01-01'' else ''-01'')) = Inl ValueError"
    by (simp add: demo_album_def strptime_defs)
  have h3: "artist_albums demo_malformed (artist_id ?a) =
      Inr ([demo_album ''x'' ''2024-02-01''] @ ?al # [demo_album ''y'' ''2024-03-15''])"
    by (simp add: demo_malformed_def demo_sp_def demo_artist_def)
  have h4: "album_loop demo_malformed ?cutoff ?a [demo_album ''x'' ''2024-02-01''] [] =
      (([?t], None), [Call (AlbumTracks ''x'')])"
    by (simp add: demo_malformed_def demo_defs strptime_defs parse_release_date_def datetime_ge_def)
  note th = malformed_short_date_abandons_artist [OF h1 h2 h3 h4, of 1 0]
  have a: "parse_release_date ''abcd'' = Inl ValueError"
    using th [THEN conjunct1] by (simp add: demo_album_def)
  have b: "scan_artist demo_malformed ?cutoff 1 (0, ?a) [] =
      ([?t], [Call (ArtistAlbums ''a''), Call (AlbumTracks ''x''),
              Print (MsgReleasesError ''a'' ValueError)])"
    using th [THEN conjunct2, THEN conjunct2, THEN conjunct1] by (simp add: demo_artist_def)
  have c: "ti_name ?t = ''T1''"
    by (simp add: make_track_info_def demo_track_def)
  show ?thesis
    unfolding b using a c by simp
qed

section \<open>One artist's failure leaves the others alone\<close>

lemma scan_artist_fst:
  "fst (scan_artist api cutoff n (i, a) recent) = recent @ artist_tracks api cutoff a"
proof (cases "artist_albums api (artist_id a)")
  case (Inl e)
  then show ?thesis by (simp add: scan_artist_def artist_tracks_def)
next
  case (Inr albums)
  have 1: "fst (scan_artist api cutoff m (j, a) rc) = fst (fst (album_loop api cutoff a albums rc))"
    for m j rc
    using Inr by (simp add: scan_artist_def split: prod.splits option.splits)
  show ?thesis
    unfolding artist_tracks_def 1 using album_loop_acc3 [of api cutoff a albums recent] by simp
qed

lemma artist_tracks_raises: "artist_albums api (artist_id a) = Inl e \<Longrightarrow> artist_tracks api cutoff a = []"
  by (simp add: artist_tracks_def scan_artist_def)

lemma artist_loop_Cons_fst:
  "fst (artist_loop api cutoff n (ia # ias) recent) =
     fst (artist_loop api cutoff n ias (fst (scan_artist api cutoff n ia recent)))"
  by (simp split: prod.splits)

lemma artist_loop_Cons_snd:
  "snd (artist_loop api cutoff n (ia # ias) recent) =
     snd (scan_artist api cutoff n ia recent)
       @ snd (artist_loop api cutoff n ias (fst (scan_artist api cutoff n ia recent)))"
  by (simp split: prod.splits)

lemma artist_loop_fst:
  "fst (artist_loop api cutoff n ias recent) =
     recent @ concat (map (\<lambda>ia. artist_tracks api cutoff (snd ia)) ias)"
proof (induction ias arbitrary: recent)
  case Nil
  show ?case by simp
next
  case (Cons ia ias)
  obtain i a where ia: "ia = (i, a)" by (cases ia)
  show ?case
    unfolding artist_loop_Cons_fst Cons.IH by (simp add: ia scan_artist_fst)
qed

lemma recent_tracks_by_artist:
  "fst (artist_loop api cutoff n (enumerate k artists) []) =
     concat (map (artist_tracks api cutoff) artists)"
proof -
  have "map (\<lambda>ia. artist_tracks api cutoff (snd ia)) (enumerate k artists)
      = map (artist_tracks api cutoff) artists"
    by (rule map_snd_enumerate_fun)
  then show ?thesis by (simp add: artist_loop_fst)
qed

lemma final_by_artist:
  assumes "cutoff_date self = Inr cutoff"
  shows "fst (get_recent_releases self artists) =
     Inr (slice_to (sort_reverse ti_release_date
        (dedup_loop (concat (map (artist_tracks (sp self) cutoff) artists)) {} []))
        (max_tracks self))"
  by (simp only: final_unfold [OF assms] recent_tracks_by_artist)

lemma scan_artist_call:
  "Call (ArtistAlbums (artist_id (snd ia))) \<in> set (snd (scan_artist api cutoff n ia recent))"
  by (cases ia) (simp add: scan_artist_def split: sum.splits prod.splits option.splits)

lemma scan_artist_error:
  "artist_albums api (artist_id (snd ia)) = Inl e \<Longrightarrow>
     Print (MsgReleasesError (artist_name (snd ia)) e) \<in> set (snd (scan_artist api cutoff n ia recent))"
  by (cases ia) (simp add: scan_artist_def)

lemma artist_loop_call:
  "ia \<in> set ias \<Longrightarrow>
     Call (ArtistAlbums (artist_id (snd ia))) \<in> set (snd (artist_loop api cutoff n ias recent))"
proof (induction ias arbitrary: recent)
  case Nil
  then show ?case by simp
next
  case (Cons x ias)
  show ?case
  proof (cases "ia = x")
    case True
    then show ?thesis
      unfolding artist_loop_Cons_snd using scan_artist_call [of x api cutoff n recent] by simp
  next
    case False
    with Cons.prems have "ia \<in> set ias" by simp
    then show ?thesis
      unfolding artist_loop_Cons_snd using Cons.IH by simp
  qed
qed

lemma artist_loop_error:
  "ia \<in> set ias \<Longrightarrow> artist_albums api (artist_id (snd ia)) = Inl e \<Longrightarrow>
     Print (MsgReleasesError (artist_name (snd ia)) e) \<in> set (snd (artist_loop api cutoff n ias recent))"
proof (induction ias arbitrary: recent)
  case Nil
  then show ?case by simp
next
  case (Cons x ias)
  show ?case
  proof (cases "ia = x")
    case True
    then show ?thesis
      unfolding artist_loop_Cons_snd
      using scan_artist_error [of api x e cutoff n recent] Cons.prems(2) by simp
  next
    case False
    with Cons.prems have "ia \<in> set ias" by simp
    then show ?thesis
      unfolding artist_loop_Cons_snd using Cons.IH Cons.prems(2) by simp
  qed
qed

lemma in_enumerate: "x \<in> set xs \<Longrightarrow> \<exists>ia. ia \<in> set (enumerate k xs) \<and> snd ia = x"
proof -
  assume "x \<in> set xs"
  then have "x \<in> snd ` set (enumerate k xs)"
    unfolding set_map [symmetric] map_snd_enumerate .
  then show ?thesis by (auto simp only: image_iff)
qed

lemma get_recent_releases_snd:
  assumes "cutoff_date self = Inr cutoff"
  shows "set (snd (artist_loop (sp self) cutoff (length artists) (enumerate 0 artists) []))
     \<subseteq> set (snd (get_recent_releases self artists))"
  using assms by (auto simp: get_recent_releases_def Let_def split: prod.splits)

lemma get_recent_releases_call:
  assumes "cutoff_date self = Inr cutoff" and "x \<in> set artists"
  shows "Call (ArtistAlbums (artist_id x)) \<in> set (snd (get_recent_releases self artists))"
proof -
  from in_enumerate [OF assms(2)] obtain ia where
    ia: "ia \<in> set (enumerate 0 artists)" "snd ia = x" by blast
  from artist_loop_call [OF ia(1)] get_recent_releases_snd [OF assms(1)] show ?thesis
    unfolding ia(2) by blast
qed

lemma get_recent_releases_error:
  assumes "cutoff_date self = Inr cutoff"
    and "x \<in> set artists" and "artist_albums (sp self) (artist_id x) = Inl e"
  shows "Print (MsgReleasesError (artist_name x) e) \<in> set (snd (get_recent_releases self artists))"
proof -
  from in_enumerate [OF assms(2)] obtain ia where
    ia: "ia \<in> set (enumerate 0 artists)" "snd ia = x" by blast
  have "artist_albums (sp self) (artist_id (snd ia)) = Inl e"
    using assms(3) ia(2) by simp
  from artist_loop_error [OF ia(1) this] get_recent_releases_snd [OF assms(1)] show ?thesis
    unfolding ia(2) by blast
qed

text \<open>
  Claim C6. Let line 114 give a cutoff. When the album request for artist \<open>b\<close> raises,
  the scanner collects nothing from \<open>b\<close> and logs the error, and the run goes on: for the
  candidates \<open>a\<close>, \<open>b\<close>, \<open>c\<close> the collected tracks are those of \<open>a\<close> followed by those of
  \<open>c\<close>; for any candidate list the method returns the ranked tracks of the other
  candidates, which is what the same list without \<open>b\<close> gives, and the albums of every
  other candidate are requested.
\<close>

theorem artist_failure_is_isolated:
  assumes "artist_albums (sp self) (artist_id b) = Inl e"
    and "cutoff_date self = Inr cutoff"
  shows "artist_tracks (sp self) cutoff b = []
    \<and> fst (artist_loop (sp self) cutoff 3 (enumerate 0 [a, b, c]) []) =
        artist_tracks (sp self) cutoff a @ artist_tracks (sp self) cutoff c
    \<and> fst (get_recent_releases self [a, b, c]) = fst (get_recent_releases self [a, c])
    \<and> fst (get_recent_releases self (before @ b # after)) =
        fst (get_recent_releases self (before @ after))
    \<and> fst (get_recent_releases self (before @ b # after)) =
        Inr (slice_to (sort_reverse ti_release_date
          (dedup_loop (concat (map (artist_tracks (sp self) cutoff) (before @ after))) {} []))
          (max_tracks self))
    \<and> Print (MsgReleasesError (artist_name b) e)
        \<in> set (snd (get_recent_releases self (before @ b # after)))
    \<and> (\<forall>x \<in> set (before @ after).
         Call (ArtistAlbums (artist_id x)) \<in> set (snd (get_recent_releases self (before @ b # after))))"
proof -
  note none = artist_tracks_raises [OF assms(1), of cutoff]
  note by_artist = final_by_artist [OF assms(2)]
  have 2: "fst (artist_loop (sp self) cutoff 3 (enumerate 0 [a, b, c]) []) =
        artist_tracks (sp self) cutoff a @ artist_tracks (sp self) cutoff c"
    unfolding recent_tracks_by_artist by (simp add: none)
  have 3: "fst (get_recent_releases self [a, b, c]) = fst (get_recent_releases self [a, c])"
    unfolding by_artist by (simp add: none)
  have 4: "fst (get_recent_releases self (before @ b # after)) =
        fst (get_recent_releases self (before @ after))"
    unfolding by_artist by (simp add: none)
  have 5: "fst (get_recent_releases self (before @ b # after)) =
        Inr (slice_to (sort_reverse ti_release_date
          (dedup_loop (concat (map (artist_tracks (sp self) cutoff) (before @ after))) {} []))
          (max_tracks self))"
    unfolding 4 by (rule by_artist)
  have 6: "Print (MsgReleasesError (artist_name b) e)
        \<in> set (snd (get_recent_releases self (before @ b # after)))"
    by (rule get_recent_releases_error [OF assms(2) _ assms(1)]) simp
  have 7: "\<forall>x \<in> set (before @ after).
         Call (ArtistAlbums (artist_id x)) \<in> set (snd (get_recent_releases self (before @ b # after)))"
    by (auto intro: get_recent_releases_call [OF assms(2)])
  from none 2 3 4 5 6 7 show ?thesis by blast
qed

theorem artist_failure_is_isolated_witness:
  "map_sum (\<lambda>e. e) (map ti_name) (fst (get_recent_releases (demo_tool demo_catalogue 50)
      [demo_artist ''a'', demo_artist ''b'', demo_artist ''c'']))
     = Inr [''T2'', ''T1'', ''T3'', ''T4'']
   \<and> Print (MsgReleasesError ''b'' SpotifyException)
       \<in> set (snd (get_recent_releases (demo_tool demo_catalogue 50)
           ([demo_artist ''a''] @ demo_artist ''b'' # [demo_artist ''c''])))"
proof -
  let ?tool = "demo_tool demo_catalogue 50"
  have h: "artist_albums (sp ?tool) (artist_id (demo_artist ''b'')) = Inl SpotifyException"
    by (simp add: demo_defs)
  note th = artist_failure_is_isolated [OF h demo_cutoff, of "demo_artist ''a''" "demo_artist ''c''"
      "[demo_artist ''a'']" "[demo_artist ''c'']"]
  have ac: "map_sum (\<lambda>e. e) (map ti_name)
      (fst (get_recent_releases ?tool [demo_artist ''a'', demo_artist ''c'']))
      = Inr [''T2'', ''T1'', ''T3'', ''T4'']"
    by (simp add: strptime_defs demo_defs scan_defs)
  have 1: "map_sum (\<lambda>e. e) (map ti_name) (fst (get_recent_releases ?tool
      [demo_artist ''a'', demo_artist ''b'', demo_artist ''c''])) = Inr [''T2'', ''T1'', ''T3'', ''T4'']"
    unfolding th [THEN conjunct2, THEN conjunct2, THEN conjunct1] by (rule ac)
  have 2: "Print (MsgReleasesError ''b'' SpotifyException)
       \<in> set (snd (get_recent_releases ?tool ([demo_artist ''a''] @ demo_artist ''b'' # [demo_artist ''c''])))"
    using th [THEN conjunct2, THEN conjunct2, THEN conjunct2, THEN conjunct2, THEN conjunct2,
        THEN conjunct1]
    by (simp add: demo_artist_def)
  from 1 2 show ?thesis by blast
qed

section \<open>A run that finds nothing\<close>

lemma playlist_writes_Nil: "playlist_writes [] = []"
  by (simp add: playlist_writes_def)

lemma playlist_writes_append: "playlist_writes (xs @ ys) = playlist_writes xs @ playlist_writes ys"
  by (simp add: playlist_writes_def calls_of_append)

lemma playlist_writes_Print: "playlist_writes (Print m # evs) = playlist_writes evs"
  by (simp add: playlist_writes_def)

lemma playlist_writes_Call:
  "playlist_writes (Call c # evs) = (if is_playlist_write c then c # playlist_writes evs else playlist_writes evs)"
  by (simp add: playlist_writes_def)

lemmas playlist_writes_simps =
  playlist_writes_Nil playlist_writes_append playlist_writes_Print playlist_writes_Call

lemma followed_loop_writes: "playlist_writes (snd (followed_loop r artists)) = []"
proof (induction r arbitrary: artists)
  case (Raises e)
  show ?case by (simp add: playlist_writes_simps)
next
  case (LastPage items)
  show ?case by (simp add: playlist_writes_simps)
next
  case (MorePages items r)
  have "snd (followed_loop (MorePages items r) artists)
      = Call NextPage # snd (followed_loop r (artists @ items))"
    by (simp split: prod.splits)
  then show ?case by (simp add: playlist_writes_simps MorePages.IH)
qed

lemma get_followed_artists_writes: "playlist_writes (snd (get_followed_artists self)) = []"
proof -
  obtain res evs where l: "followed_loop (current_user_followed_artists (sp self)) [] = (res, evs)"
    by (cases "followed_loop (current_user_followed_artists (sp self)) []")
  have "playlist_writes evs = []"
    using followed_loop_writes [of "current_user_followed_artists (sp self)" "[]"] l by simp
  then show ?thesis
    by (cases res) (simp_all add: get_followed_artists_def l playlist_writes_simps)
qed

lemma similar_step_writes: "playlist_writes (snd (similar_step api m n ia st)) = []"
  by (cases ia) (simp add: similar_step_def playlist_writes_simps split: sum.splits)

lemma similar_loop_writes: "playlist_writes (snd (similar_loop api m n ias st)) = []"
proof (induction ias arbitrary: st)
  case Nil
  show ?case by (simp add: playlist_writes_simps)
next
  case (Cons ia ias)
  show ?case
    unfolding similar_loop_Cons_snd by (simp add: playlist_writes_simps similar_step_writes Cons.IH)
qed

lemma get_similar_artists_writes: "playlist_writes (snd (get_similar_artists self ids m)) = []"
proof -
  let ?n = "min 10 (length ids)"
  obtain st evs where l: "similar_loop (sp self) m ?n (enumerate 0 (take ?n ids)) ([], set ids) = (st, evs)"
    by (cases "similar_loop (sp self) m ?n (enumerate 0 (take ?n ids)) ([], set ids)")
  have "playlist_writes evs = []"
    using similar_loop_writes [of "sp self" m ?n "enumerate 0 (take ?n ids)" "([], set ids)"] l by simp
  then show ?thesis
    by (cases st) (simp add: get_similar_artists_def Let_def l playlist_writes_simps)
qed

lemma album_loop_writes: "playlist_writes (snd (album_loop api cutoff a albums recent)) = []"
proof (induction albums arbitrary: recent)
  case Nil
  show ?case by (simp add: playlist_writes_simps)
next
  case (Cons al rest)
  show ?case
    by (simp add: playlist_writes_simps Cons.IH split: sum.splits option.splits prod.splits)
      (metis Cons.IH snd_conv)
qed

lemma scan_artist_writes: "playlist_writes (snd (scan_artist api cutoff n ia recent)) = []"
proof -
  obtain i a where ia: "ia = (i, a)" by (cases ia)
  show ?thesis
  proof (cases "artist_albums api (artist_id a)")
    case (Inl e)
    then show ?thesis by (simp add: ia scan_artist_def playlist_writes_simps)
  next
    case (Inr albums)
    obtain rc err evs where l: "album_loop api cutoff a albums recent = ((rc, err), evs)"
      by (cases "album_loop api cutoff a albums recent") auto
    have "playlist_writes evs = []"
      using album_loop_writes [of api cutoff a albums recent] l by simp
    then show ?thesis
      by (cases err) (simp_all add: ia scan_artist_def Inr l playlist_writes_simps)
  qed
qed

lemma artist_loop_writes: "playlist_writes (snd (artist_loop api cutoff n ias recent)) = []"
proof (induction ias arbitrary: recent)
  case Nil
  show ?case by (simp add: playlist_writes_simps)
next
  case (Cons ia ias)
  show ?case
    unfolding artist_loop_Cons_snd by (simp add: playlist_writes_simps scan_artist_writes Cons.IH)
qed

lemma get_recent_releases_writes: "playlist_writes (snd (get_recent_releases self artists)) = []"
proof (cases "cutoff_date self")
  case (Inl e)
  then show ?thesis by (simp add: get_recent_releases_raises playlist_writes_simps)
next
  case (Inr cutoff)
  obtain rc evs where l:
    "artist_loop (sp self) cutoff (length artists) (enumerate 0 artists) [] = (rc, evs)"
    by (cases "artist_loop (sp self) cutoff (length artists) (enumerate 0 artists) []")
  have "playlist_writes evs = []"
    using artist_loop_writes [of "sp self" cutoff "length artists" "enumerate 0 artists" "[]"] l
    by simp
  then show ?thesis
    by (simp add: get_recent_releases_def Inr Let_def l playlist_writes_simps)
qed

lemma get_recent_releases_Nil:
  "cutoff_date self = Inr cutoff \<Longrightarrow> fst (get_recent_releases self []) = Inr []"
  by (simp add: get_recent_releases_def enumerate_eq_zip sort_reverse_def slice_to_def)

lemmas quiet_defs = demo_quiet_def similar_step_def get_similar_artists_def get_followed_artists_def

text \<open>
  Claim C7, as amended. Let the followed artists be fetched, and let the scanner
  return the empty track list for the candidates (so line 114 has given a cutoff). If somebody is followed, the run ends
  with the two lines that report no new releases; if nobody is followed (the only way to an
  empty candidate set), the run ends with the line that reports no followed artists,
  before any scan. In both cases the run sends no request that creates a playlist or
  appends to one, and prints neither an error nor a failure. The scanner returns no track
  for an empty candidate list, and the publisher sends no request for an empty track list.
\<close>

theorem no_tracks_no_playlist:
  assumes "get_followed_artists self = (Inr followed, evs0)"
    and "get_similar_artists self (map artist_id followed) 20 = (similar, evs1)"
    and "get_recent_releases self (followed @ similar) = (Inr [], evs2)"
  shows "run self =
      [Print MsgStarting, Print (MsgRule 50)] @ evs0 @
      (if followed = [] then [Print MsgNoFollowedArtists]
       else evs1 @ evs2 @ [Print MsgNoNewReleasesFound, Print MsgNoNewReleasesThisWeek])
    \<and> playlist_writes (run self) = []
    \<and> fst (get_recent_releases self []) = Inr []
    \<and> create_playlist self [] = (None, [Print MsgNoTracksToAdd])"
proof -
  have r: "run self =
      [Print MsgStarting, Print (MsgRule 50)] @ evs0 @
      (if followed = [] then [Print MsgNoFollowedArtists]
       else evs1 @ evs2 @ [Print MsgNoNewReleasesFound, Print MsgNoNewReleasesThisWeek])"
    by (simp add: run_def assms print_track_summary_def)
  have w0: "playlist_writes evs0 = []"
    using get_followed_artists_writes [of self] assms(1) by simp
  have w1: "playlist_writes evs1 = []"
    using get_similar_artists_writes [of self "map artist_id followed" 20] assms(2) by simp
  have w2: "playlist_writes evs2 = []"
    using get_recent_releases_writes [of self "followed @ similar"] assms(3) by simp
  have w: "playlist_writes (run self) = []"
    unfolding r by (simp add: playlist_writes_simps w0 w1 w2)
  have c: "create_playlist self [] = (None, [Print MsgNoTracksToAdd])"
    by (simp add: create_playlist_def)
  from assms(3) have "fst (get_recent_releases self (followed @ similar)) = Inr []" by simp
  then obtain cutoff where "cutoff_date self = Inr cutoff" by (rule final_cases)
  from r w get_recent_releases_Nil [OF this] c show ?thesis by blast
qed

theorem no_tracks_no_playlist_witness:
  "run (demo_tool demo_quiet 50) =
     [Print MsgStarting, Print (MsgRule 50),
      Print MsgFetchingFollowed, Call CurrentUserFollowedArtists, Print (MsgFoundFollowed 1),
      Print MsgFindingSimilar, Call (ArtistRelatedArtists ''a''), Print (MsgSimilarProgress 1 1),
      Print (MsgFoundSimilar 0),
      Print (MsgCheckingReleases 7), Call (ArtistAlbums ''a''), Print (MsgFoundRecent 0),
      Print MsgNoNewReleasesFound, Print MsgNoNewReleasesThisWeek]
   \<and> playlist_writes (run (demo_tool demo_quiet 50)) = []"
proof -
  let ?tool = "demo_tool demo_quiet 50"
  have h1: "get_followed_artists ?tool =
      (Inr [demo_artist ''a''],
       [Print MsgFetchingFollowed, Call CurrentUserFollowedArtists, Print (MsgFoundFollowed 1)])"
    by (simp add: quiet_defs demo_defs)
  have h2: "get_similar_artists ?tool (map artist_id [demo_artist ''a'']) 20 =
      ([], [Print MsgFindingSimilar, Call (ArtistRelatedArtists ''a''), Print (MsgSimilarProgress 1 1),
            Print (MsgFoundSimilar 0)])"
    by (simp add: quiet_defs demo_defs enumerate_eq_zip)
  have h3: "get_recent_releases ?tool ([demo_artist ''a''] @ []) =
      (Inr [], [Print (MsgCheckingReleases 7), Call (ArtistAlbums ''a''), Print (MsgFoundRecent 0)])"
    by (simp add: quiet_defs strptime_defs demo_defs scan_defs)
  note th = no_tracks_no_playlist [OF h1 h2 h3]
  have 1: "run ?tool =
     [Print MsgStarting, Print (MsgRule 50),
      Print MsgFetchingFollowed, Call CurrentUserFollowedArtists, Print (MsgFoundFollowed 1),
      Print MsgFindingSimilar, Call (ArtistRelatedArtists ''a''), Print (MsgSimilarProgress 1 1),
      Print (MsgFoundSimilar 0),
      Print (MsgCheckingReleases 7), Call (ArtistAlbums ''a''), Print (MsgFoundRecent 0),
      Print MsgNoNewReleasesFound, Print MsgNoNewReleasesThisWeek]"
    using th [THEN conjunct1] by (simp add: demo_artist_def)
  from 1 th [THEN conjunct2, THEN conjunct1] show ?thesis by (rule conjI)
qed

text \<open>
  Claim C7 as stated fails for an empty candidate set: when nobody is followed, the run
  prints the line about no followed artists and returns; no line about new releases is
  printed.
\<close>

theorem nobody_followed_counterexample:
  "fst (get_followed_artists (demo_tool demo_catalogue 50)) = Inr []
   \<and> fst (get_recent_releases (demo_tool demo_catalogue 50) []) = Inr []
   \<and> run (demo_tool demo_catalogue 50) =
       [Print MsgStarting, Print (MsgRule 50),
        Print MsgFetchingFollowed, Call CurrentUserFollowedArtists, Print (MsgFoundFollowed 0),
        Print MsgNoFollowedArtists]
   \<and> Print MsgNoNewReleasesThisWeek \<notin> set (run (demo_tool demo_catalogue 50))
   \<and> Print MsgNoNewReleasesFound \<notin> set (run (demo_tool demo_catalogue 50))"
proof -
  let ?tool = "demo_tool demo_catalogue 50"
  have f: "get_followed_artists ?tool =
      (Inr [], [Print MsgFetchingFollowed, Call CurrentUserFollowedArtists, Print (MsgFoundFollowed 0)])"
    by (simp add: get_followed_artists_def demo_defs)
  have r: "run ?tool =
       [Print MsgStarting, Print (MsgRule 50),
        Print MsgFetchingFollowed, Call CurrentUserFollowedArtists, Print (MsgFoundFollowed 0),
        Print MsgNoFollowedArtists]"
    by (simp add: run_def f)
  have n1: "Print MsgNoNewReleasesThisWeek \<notin> set (run ?tool)"
    unfolding r by simp
  have n2: "Print MsgNoNewReleasesFound \<notin> set (run ?tool)"
    unfolding r by simp
  from f r n1 n2 get_recent_releases_Nil [OF demo_cutoff, of demo_catalogue 50] show ?thesis by simp
qed

section \<open>The order of the final list and the order of the dates\<close>

lemma is_digit_of_char: "is_digit c \<Longrightarrow> of_char c = 48 + digit_val c"
  by (auto simp: is_digit_def digit_val_def)

lemma digit_less: "is_digit a \<Longrightarrow> is_digit b \<Longrightarrow> (a < b) = (digit_val a < digit_val b)"
  by (simp add: less_char_def is_digit_of_char)

lemma digit_eq: "is_digit a \<Longrightarrow> is_digit b \<Longrightarrow> (a = b) = (digit_val a = digit_val b)"
proof -
  assume d: "is_digit a" "is_digit b"
  have "(a = b) = ((of_char a :: nat) = of_char b)" by simp
  also have "\<dots> = (digit_val a = digit_val b)" using d by (simp add: is_digit_of_char)
  finally show ?thesis .
qed

lemma is_digit_not_dash: "is_digit c \<Longrightarrow> c \<noteq> CHR ''-'' \<and> c \<noteq> CHR '' ''"
  by (auto simp: is_digit_def)

lemma two_chars_mem:
  "(v, r) \<in> set (two_chars as bs s) \<Longrightarrow>
     \<exists>a b. s = a # b # r \<and> v = (if a = CHR '' '' then 0 else 10 * digit_val a) + digit_val b"
  by (induction as bs s rule: two_chars.induct) (auto split: if_splits)

lemma one_char_mem: "(v, r) \<in> set (one_char as s) \<Longrightarrow> \<exists>a. s = a # r \<and> v = digit_val a"
  by (induction as s rule: one_char.induct) (auto split: if_splits)

lemma match_m_mem:
  assumes "(v, r) \<in> set (match_m s)"
  shows "(\<exists>a b. s = a # b # r \<and> v = (if a = CHR '' '' then 0 else 10 * digit_val a) + digit_val b)
     \<or> (\<exists>a. s = a # r \<and> v = digit_val a)"
proof -
  from assms have "(\<exists>as bs. (v, r) \<in> set (two_chars as bs s)) \<or> (\<exists>as. (v, r) \<in> set (one_char as s))"
    unfolding match_m_def set_append Un_iff by blast
  then show ?thesis
  proof
    assume "\<exists>as bs. (v, r) \<in> set (two_chars as bs s)"
    then obtain as bs where "(v, r) \<in> set (two_chars as bs s)" by blast
    from two_chars_mem [OF this] show ?thesis by (rule disjI1)
  next
    assume "\<exists>as. (v, r) \<in> set (one_char as s)"
    then obtain as where "(v, r) \<in> set (one_char as s)" by blast
    from one_char_mem [OF this] show ?thesis by (rule disjI2)
  qed
qed

lemma match_d_mem:
  assumes "(v, r) \<in> set (match_d s)"
  shows "(\<exists>a b. s = a # b # r \<and> v = (if a = CHR '' '' then 0 else 10 * digit_val a) + digit_val b)
     \<or> (\<exists>a. s = a # r \<and> v = digit_val a)"
proof -
  from assms have "(\<exists>as bs. (v, r) \<in> set (two_chars as bs s)) \<or> (\<exists>as. (v, r) \<in> set (one_char as s))"
    unfolding match_d_def set_append Un_iff by blast
  then show ?thesis
  proof
    assume "\<exists>as bs. (v, r) \<in> set (two_chars as bs s)"
    then obtain as bs where "(v, r) \<in> set (two_chars as bs s)" by blast
    from two_chars_mem [OF this] show ?thesis by (rule disjI1)
  next
    assume "\<exists>as. (v, r) \<in> set (one_char as s)"
    then obtain as where "(v, r) \<in> set (one_char as s)" by blast
    from one_char_mem [OF this] show ?thesis by (rule disjI2)
  qed
qed

lemma strptime_Inr:
  assumes "strptime s = Inr x"
  shows "\<exists>y m d. ((y, m, d), []) \<in> set (format_regex_matches s) \<and> valid_date y m d
     \<and> x = \<lparr>dt_year = y, dt_month = m, dt_day = d, dt_micros = 0\<rparr>"
  using assms by (auto simp: strptime_def split: list.splits if_splits)

lemma strptime_full_form:
  assumes dg: "is_digit a" "is_digit b" "is_digit c" "is_digit e"
      "is_digit m1" "is_digit m2" "is_digit d1" "is_digit d2"
    and p: "strptime [a, b, c, e, CHR ''-'', m1, m2, CHR ''-'', d1, d2] = Inr x"
  shows "x = \<lparr>dt_year = 1000 * digit_val a + 100 * digit_val b + 10 * digit_val c + digit_val e,
              dt_month = 10 * digit_val m1 + digit_val m2,
              dt_day = 10 * digit_val d1 + digit_val d2, dt_micros = 0\<rparr>
     \<and> 1 \<le> 10 * digit_val m1 + digit_val m2 \<and> 1 \<le> 10 * digit_val d1 + digit_val d2"
proof -
  let ?s = "[a, b, c, e, CHR ''-'', m1, m2, CHR ''-'', d1, d2]"
  from strptime_Inr [OF p] obtain y m d where
    mem: "((y, m, d), []) \<in> set (format_regex_matches ?s)" and v: "valid_date y m d"
    and x: "x = \<lparr>dt_year = y, dt_month = m, dt_day = d, dt_micros = 0\<rparr>" by blast
  from mem obtain r3 where
    y: "y = 1000 * digit_val a + 100 * digit_val b + 10 * digit_val c + digit_val e"
    and m: "(m, r3) \<in> set (match_m [m1, m2, CHR ''-'', d1, d2])"
    and r4: "\<exists>r4. r4 \<in> set (match_dash r3) \<and> (d, []) \<in> set (match_d r4)"
    using dg(1-4) by (auto simp: format_regex_matches_def)
  from r4 obtain r4 where r3: "r3 = CHR ''-'' # r4" and d: "(d, []) \<in> set (match_d r4)"
    by (cases r3) (auto split: if_splits)
  from match_m_mem [OF m] r3 is_digit_not_dash [OF dg(5)] is_digit_not_dash [OF dg(6)]
  have mm: "m = 10 * digit_val m1 + digit_val m2" and r4': "r4 = [d1, d2]"
    by auto
  from match_d_mem [OF d] r4' is_digit_not_dash [OF dg(7)]
  have dd: "d = 10 * digit_val d1 + digit_val d2"
    by auto
  from v have "1 \<le> m" "1 \<le> d" by (simp_all add: valid_date_def)
  with x y mm dd show ?thesis by simp
qed

lemma release_datetime_year:
  assumes "is_digit a" "is_digit b" "is_digit c" "is_digit e"
    and "release_datetime [a, b, c, e] = Some x"
  shows "x = \<lparr>dt_year = 1000 * digit_val a + 100 * digit_val b + 10 * digit_val c + digit_val e,
              dt_month = 1, dt_day = 1, dt_micros = 0\<rparr>"
proof -
  have d0: "is_digit CHR ''0''" and d1: "is_digit CHR ''1''" by (simp_all add: is_digit_def)
  from assms(5) have "strptime ([a, b, c, e] @ ''-01-01'') = Inr x"
    by (auto simp: release_datetime_def parse_release_date_4 split: sum.splits option.splits)
  then have "strptime [a, b, c, e, CHR ''-'', CHR ''0'', CHR ''1'', CHR ''-'', CHR ''0'', CHR ''1''] = Inr x"
    by simp
  from strptime_full_form [OF assms(1-4) d0 d1 d0 d1 this] show ?thesis
    by (simp add: digit_val_def)
qed

lemma release_datetime_month:
  assumes "is_digit a" "is_digit b" "is_digit c" "is_digit e" "is_digit m1" "is_digit m2"
    and "release_datetime [a, b, c, e, CHR ''-'', m1, m2] = Some x"
  shows "x = \<lparr>dt_year = 1000 * digit_val a + 100 * digit_val b + 10 * digit_val c + digit_val e,
              dt_month = 10 * digit_val m1 + digit_val m2, dt_day = 1, dt_micros = 0\<rparr>
     \<and> 1 \<le> 10 * digit_val m1 + digit_val m2"
proof -
  have d0: "is_digit CHR ''0''" and d1: "is_digit CHR ''1''" by (simp_all add: is_digit_def)
  from assms(7) have "strptime ([a, b, c, e, CHR ''-'', m1, m2] @ ''-01'') = Inr x"
    by (auto simp: release_datetime_def parse_release_date_7 split: sum.splits option.splits)
  then have "strptime [a, b, c, e, CHR ''-'', m1, m2, CHR ''-'', CHR ''0'', CHR ''1''] = Inr x"
    by simp
  from strptime_full_form [OF assms(1-6) d0 d1 this] show ?thesis
    by (simp add: digit_val_def)
qed

lemma release_datetime_day:
  assumes "is_digit a" "is_digit b" "is_digit c" "is_digit e" "is_digit m1" "is_digit m2"
      "is_digit d1" "is_digit d2"
    and "release_datetime [a, b, c, e, CHR ''-'', m1, m2, CHR ''-'', d1, d2] = Some x"
  shows "x = \<lparr>dt_year = 1000 * digit_val a + 100 * digit_val b + 10 * digit_val c + digit_val e,
              dt_month = 10 * digit_val m1 + digit_val m2,
              dt_day = 10 * digit_val d1 + digit_val d2, dt_micros = 0\<rparr>
     \<and> 1 \<le> 10 * digit_val m1 + digit_val m2 \<and> 1 \<le> 10 * digit_val d1 + digit_val d2"
proof -
  from assms(9) have "strptime [a, b, c, e, CHR ''-'', m1, m2, CHR ''-'', d1, d2] = Inr x"
    by (simp add: release_datetime_def parse_release_date_def split: sum.splits option.splits py_error.splits if_splits)
  from strptime_full_form [OF assms(1-8) this] show ?thesis .
qed

lemma lex_step_nat:
  fixes h h' l l' :: nat
  assumes "l \<le> 9" "l' \<le> 9"
  shows "(h' < h \<or> h' = h \<and> (l' < l \<or> l' = l \<and> P)) =
         (10 * h' + l' < 10 * h + l \<or> 10 * h' + l' = 10 * h + l \<and> P)"
  using assms by (cases P) (simp_all, arith, arith)

lemma lex2_nat:
  fixes a b a' b' :: nat
  assumes "b \<le> 9" "b' \<le> 9"
  shows "(a' < a \<or> a' = a \<and> (b' < b \<or> b' = b \<and> P)) =
         (10 * a' + b' < 10 * a + b \<or> 10 * a' + b' = 10 * a + b \<and> P)"
  by (rule lex_step_nat [OF assms])

lemma lex4_nat:
  fixes a b c e a' b' c' e' :: nat
  assumes "b \<le> 9" "c \<le> 9" "e \<le> 9" "b' \<le> 9" "c' \<le> 9" "e' \<le> 9"
  shows "(a' < a \<or> a' = a \<and> (b' < b \<or> b' = b \<and> (c' < c \<or> c' = c \<and> (e' < e \<or> e' = e \<and> P)))) =
         (1000 * a' + 100 * b' + 10 * c' + e' < 1000 * a + 100 * b + 10 * c + e
          \<or> 1000 * a' + 100 * b' + 10 * c' + e' = 1000 * a + 100 * b + 10 * c + e \<and> P)"
proof -
  have "(a' < a \<or> a' = a \<and> (b' < b \<or> b' = b \<and> (c' < c \<or> c' = c \<and> (e' < e \<or> e' = e \<and> P)))) =
        (10 * a' + b' < 10 * a + b \<or> 10 * a' + b' = 10 * a + b \<and> (c' < c \<or> c' = c \<and> (e' < e \<or> e' = e \<and> P)))"
    by (rule lex_step_nat [OF assms(1) assms(4)])
  also have "\<dots> = (10 * (10 * a' + b') + c' < 10 * (10 * a + b) + c
        \<or> 10 * (10 * a' + b') + c' = 10 * (10 * a + b) + c \<and> (e' < e \<or> e' = e \<and> P))"
    by (rule lex_step_nat [OF assms(2) assms(5)])
  also have "\<dots> = (10 * (10 * (10 * a' + b') + c') + e' < 10 * (10 * (10 * a + b) + c) + e
        \<or> 10 * (10 * (10 * a' + b') + c') + e' = 10 * (10 * (10 * a + b) + c) + e \<and> P)"
    by (rule lex_step_nat [OF assms(3) assms(6)])
  also have "\<dots> = (1000 * a' + 100 * b' + 10 * c' + e' < 1000 * a + 100 * b + 10 * c + e
          \<or> 1000 * a' + 100 * b' + 10 * c' + e' = 1000 * a + 100 * b + 10 * c + e \<and> P)"
    by (simp add: algebra_simps)
  finally show ?thesis .
qed

lemma year_chunk:
  assumes "is_digit a" "is_digit b" "is_digit c" "is_digit e"
    and "is_digit a'" "is_digit b'" "is_digit c'" "is_digit e'"
  shows "([a', b', c', e'] @ r' \<le> [a, b, c, e] @ r) =
         (1000 * digit_val a' + 100 * digit_val b' + 10 * digit_val c' + digit_val e'
            < 1000 * digit_val a + 100 * digit_val b + 10 * digit_val c + digit_val e
          \<or> 1000 * digit_val a' + 100 * digit_val b' + 10 * digit_val c' + digit_val e'
            = 1000 * digit_val a + 100 * digit_val b + 10 * digit_val c + digit_val e \<and> r' \<le> r)"
proof -
  have "([a', b', c', e'] @ r' \<le> [a, b, c, e] @ r) =
     (digit_val a' < digit_val a \<or> digit_val a' = digit_val a \<and>
       (digit_val b' < digit_val b \<or> digit_val b' = digit_val b \<and>
         (digit_val c' < digit_val c \<or> digit_val c' = digit_val c \<and>
           (digit_val e' < digit_val e \<or> digit_val e' = digit_val e \<and> r' \<le> r))))"
    using assms by (simp add: digit_less digit_eq)
  also have "\<dots> = (1000 * digit_val a' + 100 * digit_val b' + 10 * digit_val c' + digit_val e'
            < 1000 * digit_val a + 100 * digit_val b + 10 * digit_val c + digit_val e
          \<or> 1000 * digit_val a' + 100 * digit_val b' + 10 * digit_val c' + digit_val e'
            = 1000 * digit_val a + 100 * digit_val b + 10 * digit_val c + digit_val e \<and> r' \<le> r)"
    by (rule lex4_nat) (rule is_digit_val, fact)+
  finally show ?thesis .
qed

lemma two_chunk:
  assumes "is_digit a" "is_digit b" "is_digit a'" "is_digit b'"
  shows "(a' # b' # r' \<le> a # b # r) =
         (10 * digit_val a' + digit_val b' < 10 * digit_val a + digit_val b
          \<or> 10 * digit_val a' + digit_val b' = 10 * digit_val a + digit_val b \<and> r' \<le> r)"
proof -
  have "(a' # b' # r' \<le> a # b # r) =
     (digit_val a' < digit_val a \<or> digit_val a' = digit_val a \<and>
       (digit_val b' < digit_val b \<or> digit_val b' = digit_val b \<and> r' \<le> r))"
    using assms by (simp add: digit_less digit_eq)
  also have "\<dots> = (10 * digit_val a' + digit_val b' < 10 * digit_val a + digit_val b
          \<or> 10 * digit_val a' + digit_val b' = 10 * digit_val a + digit_val b \<and> r' \<le> r)"
    by (rule lex2_nat) (rule is_digit_val, fact)+
  finally show ?thesis .
qed

lemma dash_chunk:
  assumes "is_digit a" "is_digit b" "is_digit a'" "is_digit b'"
  shows "(CHR ''-'' # a' # b' # r' \<le> CHR ''-'' # a # b # r) =
         (10 * digit_val a' + digit_val b' < 10 * digit_val a + digit_val b
          \<or> 10 * digit_val a' + digit_val b' = 10 * digit_val a + digit_val b \<and> r' \<le> r)"
proof -
  have "(CHR ''-'' # a' # b' # r' \<le> CHR ''-'' # a # b # r) = (a' # b' # r' \<le> a # b # r)"
    by (simp only: Cons_le_Cons) simp
  then show ?thesis by (simp only: two_chunk [OF assms])
qed

lemma order_core:
  assumes "is_digit a" "is_digit b" "is_digit c" "is_digit e"
    and "is_digit a'" "is_digit b'" "is_digit c'" "is_digit e'"
    and le: "[a', b', c', e'] @ r' \<le> [a, b, c, e] @ r"
    and tl: "r' \<le> r \<Longrightarrow> M' < M \<or> M' = M \<and> D' \<le> D"
  shows "datetime_ge
     \<lparr>dt_year = 1000 * digit_val a + 100 * digit_val b + 10 * digit_val c + digit_val e,
      dt_month = M, dt_day = D, dt_micros = 0\<rparr>
     \<lparr>dt_year = 1000 * digit_val a' + 100 * digit_val b' + 10 * digit_val c' + digit_val e',
      dt_month = M', dt_day = D', dt_micros = 0\<rparr>"
proof -
  let ?Y = "1000 * digit_val a + 100 * digit_val b + 10 * digit_val c + digit_val e"
  let ?Y' = "1000 * digit_val a' + 100 * digit_val b' + 10 * digit_val c' + digit_val e'"
  from le have "?Y' < ?Y \<or> ?Y' = ?Y \<and> r' \<le> r"
    by (simp only: year_chunk [OF assms(1-8)])
  then have "?Y' < ?Y \<or> ?Y' = ?Y \<and> (M' < M \<or> M' = M \<and> D' \<le> D)"
    using tl by blast
  then show ?thesis
    unfolding datetime_ge_def by (simp only: datetime.simps) auto
qed

lemma zero_padded_cases [consumes 2, case_names year month day]:
  assumes "zero_padded s" and "release_datetime s = Some x"
  obtains
    (year) a b c e where "is_digit a" "is_digit b" "is_digit c" "is_digit e"
      "s = [a, b, c, e] @ []"
      "x = \<lparr>dt_year = 1000 * digit_val a + 100 * digit_val b + 10 * digit_val c + digit_val e,
             dt_month = 1, dt_day = 1, dt_micros = 0\<rparr>"
  | (month) a b c e m1 m2 where "is_digit a" "is_digit b" "is_digit c" "is_digit e"
      "is_digit m1" "is_digit m2"
      "s = [a, b, c, e] @ [CHR ''-'', m1, m2]"
      "x = \<lparr>dt_year = 1000 * digit_val a + 100 * digit_val b + 10 * digit_val c + digit_val e,
             dt_month = 10 * digit_val m1 + digit_val m2, dt_day = 1, dt_micros = 0\<rparr>"
      "1 \<le> 10 * digit_val m1 + digit_val m2"
  | (day) a b c e m1 m2 d1 d2 where "is_digit a" "is_digit b" "is_digit c" "is_digit e"
      "is_digit m1" "is_digit m2" "is_digit d1" "is_digit d2"
      "s = [a, b, c, e] @ [CHR ''-'', m1, m2, CHR ''-'', d1, d2]"
      "x = \<lparr>dt_year = 1000 * digit_val a + 100 * digit_val b + 10 * digit_val c + digit_val e,
             dt_month = 10 * digit_val m1 + digit_val m2,
             dt_day = 10 * digit_val d1 + digit_val d2, dt_micros = 0\<rparr>"
      "1 \<le> 10 * digit_val m1 + digit_val m2" "1 \<le> 10 * digit_val d1 + digit_val d2"
  using assms(1)
proof (cases rule: zero_padded.elims(2))
  case (1 a b c d)
  then have dg: "is_digit a" "is_digit b" "is_digit c" "is_digit d" by simp_all
  from assms(2) have "release_datetime [a, b, c, d] = Some x" unfolding 1(1) .
  from release_datetime_year [OF dg this] dg 1(1) show ?thesis
    by (intro year [of a b c d]) simp_all
next
  case (2 a b c d h m n)
  then have dg: "is_digit a" "is_digit b" "is_digit c" "is_digit d" "is_digit m" "is_digit n"
    and h: "h = CHR ''-''" by simp_all
  from assms(2) have "release_datetime [a, b, c, d, CHR ''-'', m, n] = Some x" unfolding 2(1) h .
  from release_datetime_month [OF dg this] dg 2(1) h show ?thesis
    by (intro month [of a b c d m n]) simp_all
next
  case (3 a b c d h m n k p q)
  then have dg: "is_digit a" "is_digit b" "is_digit c" "is_digit d" "is_digit m" "is_digit n"
      "is_digit p" "is_digit q"
    and h: "h = CHR ''-''" "k = CHR ''-''" by simp_all
  from assms(2) have "release_datetime [a, b, c, d, CHR ''-'', m, n, CHR ''-'', p, q] = Some x"
    unfolding 3(1) h .
  from release_datetime_day [OF dg this] dg 3(1) h show ?thesis
    by (intro day [of a b c d m n p q]) simp_all
qed

lemma zero_padded_order:
  assumes zs: "zero_padded s" and ps: "release_datetime s = Some x"
    and zt: "zero_padded t" and pt: "release_datetime t = Some y"
    and le: "t \<le> s"
  shows "datetime_ge x y"
  using zs ps
proof (cases rule: zero_padded_cases)
  case (year a b c e)
  note S = this
  from zt pt show ?thesis
  proof (cases rule: zero_padded_cases)
    case (year a' b' c' e')
    show ?thesis unfolding S(6) year(6)
      by (rule order_core [OF S(1-4) year(1-4) le [unfolded S(5) year(5)]]) simp
  next
    case (month a' b' c' e' m1' m2')
    show ?thesis unfolding S(6) month(8)
      by (rule order_core [OF S(1-4) month(1-4) le [unfolded S(5) month(7)]]) simp
  next
    case (day a' b' c' e' m1' m2' d1' d2')
    show ?thesis unfolding S(6) day(10)
      by (rule order_core [OF S(1-4) day(1-4) le [unfolded S(5) day(9)]]) simp
  qed
next
  case (month a b c e m1 m2)
  note S = this
  from zt pt show ?thesis
  proof (cases rule: zero_padded_cases)
    case (year a' b' c' e')
    show ?thesis unfolding S(8) year(6)
      by (rule order_core [OF S(1-4) year(1-4) le [unfolded S(7) year(5)]]) (use S(9) in arith)
  next
    case (month a' b' c' e' m1' m2')
    show ?thesis unfolding S(8) month(8)
      by (rule order_core [OF S(1-4) month(1-4) le [unfolded S(7) month(7)]])
        (simp only: dash_chunk [OF S(5,6) month(5,6)], arith)
  next
    case (day a' b' c' e' m1' m2' d1' d2')
    show ?thesis unfolding S(8) day(10)
      by (rule order_core [OF S(1-4) day(1-4) le [unfolded S(7) day(9)]])
        (simp only: dash_chunk [OF S(5,6) day(5,6)] le_Nil, simp)
  qed
next
  case (day a b c e m1 m2 d1 d2)
  note S = this
  from zt pt show ?thesis
  proof (cases rule: zero_padded_cases)
    case (year a' b' c' e')
    show ?thesis unfolding S(10) year(6)
      by (rule order_core [OF S(1-4) year(1-4) le [unfolded S(9) year(5)]]) (use S(11,12) in arith)
  next
    case (month a' b' c' e' m1' m2')
    show ?thesis unfolding S(10) month(8)
      by (rule order_core [OF S(1-4) month(1-4) le [unfolded S(9) month(7)]])
        (simp only: dash_chunk [OF S(5,6) month(5,6)], use S(12) in arith)
  next
    case (day a' b' c' e' m1' m2' d1' d2')
    show ?thesis unfolding S(10) day(10)
      by (rule order_core [OF S(1-4) day(1-4) le [unfolded S(9) day(9)]])
        (simp only: dash_chunk [OF S(5,6) day(5,6)] dash_chunk [OF S(7,8) day(7,8)] Nil_le_Cons, arith)
  qed
qed

lemma album_loop_dated:
  assumes "\<forall>t\<in>set recent. \<exists>d. release_datetime (ti_release_date t) = Some d \<and> datetime_ge d cutoff"
  shows "\<forall>t\<in>set (fst (fst (album_loop api cutoff a als recent))).
           \<exists>d. release_datetime (ti_release_date t) = Some d \<and> datetime_ge d cutoff"
  using assms
proof (induction als arbitrary: recent)
  case Nil
  then show ?case by simp
next
  case (Cons al als)
  show ?case
  proof (cases "parse_release_date (album_release_date al)")
    case (Inl e)
    then show ?thesis using Cons.prems by simp
  next
    case (Inr r)
    show ?thesis
    proof (cases r)
      case None
      then show ?thesis using Inr Cons.IH [OF Cons.prems] by simp
    next
      case (Some d)
      show ?thesis
      proof (cases "datetime_ge d cutoff")
        case False
        then show ?thesis using Inr Some Cons.IH [OF Cons.prems] by simp
      next
        case True
        show ?thesis
        proof (cases "album_tracks api (album_id al)")
          case (Inl e)
          then show ?thesis using Inr Some True Cons.prems by simp
        next
          case tr: (Inr tracks)
          let ?new = "recent @ map (make_track_info a al) tracks"
          have "\<forall>t\<in>set ?new. \<exists>d. release_datetime (ti_release_date t) = Some d \<and> datetime_ge d cutoff"
            using Cons.prems Inr Some True
            by (auto simp: make_track_info_def release_datetime_def)
          from Cons.IH [OF this] show ?thesis
            using Inr Some True tr by (simp split: prod.splits)
        qed
      qed
    qed
  qed
qed

lemma artist_tracks_dated:
  "\<forall>t\<in>set (artist_tracks api cutoff a).
     \<exists>d. release_datetime (ti_release_date t) = Some d \<and> datetime_ge d cutoff"
proof (cases "artist_albums api (artist_id a)")
  case (Inl e)
  then show ?thesis by (simp add: artist_tracks_raises)
next
  case (Inr albums)
  have "artist_tracks api cutoff a = fst (fst (album_loop api cutoff a albums []))"
    using Inr by (simp add: artist_tracks_def scan_artist_def split: prod.splits option.splits)
  then show ?thesis
    using album_loop_dated [of "[]" cutoff api a albums] by simp
qed

lemma dedup_loop_subset: "set (dedup_loop xs {} []) \<subseteq> set xs"
  by (induction xs rule: rev_induct) (auto simp: dedup_loop_snoc)

lemma final_subset:
  assumes "cutoff_date self = Inr cutoff"
    and "fst (get_recent_releases self artists) = Inr tracks"
  shows "set tracks \<subseteq> (\<Union>a\<in>set artists. set (artist_tracks (sp self) cutoff a))"
proof -
  let ?rc = "concat (map (artist_tracks (sp self) cutoff) artists)"
  let ?u = "sort_reverse ti_release_date (dedup_loop ?rc {} [])"
  obtain n where n: "slice_to ?u (max_tracks self) = take n ?u"
    using slice_to_take by blast
  from final_by_artist [OF assms(1), of artists] assms(2)
  have t: "tracks = take n ?u" by (simp add: n)
  have "set tracks \<subseteq> set ?u"
    unfolding t by (rule set_take_subset)
  also have "set ?u = set (dedup_loop ?rc {} [])"
    by (rule mset_eq_setD) (rule sort_reverse_mset)
  also have "\<dots> \<subseteq> set ?rc" by (rule dedup_loop_subset)
  also have "set ?rc = (\<Union>a\<in>set artists. set (artist_tracks (sp self) cutoff a))"
    by simp
  finally show ?thesis .
qed

lemma final_dated:
  assumes "fst (get_recent_releases self artists) = Inr tracks" and "t \<in> set tracks"
  shows "\<exists>cutoff d. cutoff_date self = Inr cutoff
     \<and> release_datetime (ti_release_date t) = Some d \<and> datetime_ge d cutoff"
proof -
  from assms(1) obtain cutoff where c: "cutoff_date self = Inr cutoff" by (rule final_cases)
  from final_subset [OF c assms(1)] assms(2) obtain a where
    "t \<in> set (artist_tracks (sp self) cutoff a)" by blast
  with artist_tracks_dated c show ?thesis by blast
qed

lemma newer_or_same_zero_padded:
  assumes "zero_padded s" "zero_padded t"
    and "release_datetime s = Some x" "release_datetime t = Some y"
    and "t \<le> s"
  shows "newer_or_same s t"
  using zero_padded_order [OF assms(1) assms(3) assms(2) assms(4) assms(5)]
  by (simp add: newer_or_same_def assms(3) assms(4))

text \<open>
  Where the order of the strings is the order of the dates. Every track of the returned
  list has a date value on or after the cutoff; and when the release-date strings of the
  returned list are written in one of the forms \<open>YYYY\<close>, \<open>YYYY-MM\<close>, \<open>YYYY-MM-DD\<close> with all
  digits, the list is sorted by date value, newest first (year only read as 1 January,
  year and month as the first of the month).
\<close>

lemma zero_padded_final_chronological:
  assumes "fst (get_recent_releases self artists) = Inr tracks"
    and "\<forall>t\<in>set tracks. zero_padded (ti_release_date t)"
  shows "chronological tracks"
proof -
  have "sorted_wrt (\<lambda>a b. newer_or_same (ti_release_date a) (ti_release_date b)) tracks"
  proof (rule sorted_wrt_mono_rel [OF _ final_sorted [OF assms(1)]])
    fix a b
    assume a: "a \<in> set tracks" and b: "b \<in> set tracks"
      and le: "ti_release_date b \<le> ti_release_date a"
    from final_dated [OF assms(1) a] obtain x where
      x: "release_datetime (ti_release_date a) = Some x" by blast
    from final_dated [OF assms(1) b] obtain y where
      y: "release_datetime (ti_release_date b) = Some y" by blast
    from assms(2) a b have "zero_padded (ti_release_date a)" "zero_padded (ti_release_date b)"
      by blast+
    from newer_or_same_zero_padded [OF this x y le]
    show "newer_or_same (ti_release_date a) (ti_release_date b)" .
  qed
  then show ?thesis
    by (simp add: chronological_def sorted_wrt_map)
qed

text \<open>
  Claim C3 says that the final track list is sorted by release date, newest first, with
  the dates normalized before they are compared. Line 174 sorts by the release-date
  string instead. From the albums dated \<open>2024-12-01\<close> and \<open>2024-3-5\<close>, which the scanner
  reads as 1 December 2024 and 5 March 2024, \<open>get_recent_releases\<close> returns the track of
  5 March before the track of 1 December: the returned list is not sorted by date.
\<close>

theorem raw_string_sort_breaks_date_order:
  "map_sum (\<lambda>e. e) (map ti_release_date)
      (fst (get_recent_releases (demo_tool demo_unpadded 50) [demo_artist ''a'']))
     = Inr [''2024-3-5'', ''2024-12-01'']
   \<and> release_datetime ''2024-3-5'' = Some \<lparr>dt_year = 2024, dt_month = 3, dt_day = 5, dt_micros = 0\<rparr>
   \<and> release_datetime ''2024-12-01'' = Some \<lparr>dt_year = 2024, dt_month = 12, dt_day = 1, dt_micros = 0\<rparr>
   \<and> \<not> datetime_ge \<lparr>dt_year = 2024, dt_month = 3, dt_day = 5, dt_micros = 0\<rparr>
          \<lparr>dt_year = 2024, dt_month = 12, dt_day = 1, dt_micros = 0\<rparr>
   \<and> \<not> chronological
        (projr (fst (get_recent_releases (demo_tool demo_unpadded 50) [demo_artist ''a''])))"
proof -
  let ?final = "fst (get_recent_releases (demo_tool demo_unpadded 50) [demo_artist ''a''])"
  have m: "map_sum (\<lambda>e. e) (map ti_release_date) ?final = Inr [''2024-3-5'', ''2024-12-01'']"
    by (simp add: strptime_defs demo_defs demo_unpadded_def scan_defs)
  then have m': "map ti_release_date (projr ?final) = [''2024-3-5'', ''2024-12-01'']"
    by (cases ?final) simp_all
  have r1: "release_datetime ''2024-3-5'' = Some \<lparr>dt_year = 2024, dt_month = 3, dt_day = 5, dt_micros = 0\<rparr>"
    by (simp add: release_datetime_def parse_release_date_def strptime_defs)
  have r2: "release_datetime ''2024-12-01'' = Some \<lparr>dt_year = 2024, dt_month = 12, dt_day = 1, dt_micros = 0\<rparr>"
    by (simp add: release_datetime_def parse_release_date_def strptime_defs)
  have n: "\<not> datetime_ge \<lparr>dt_year = 2024, dt_month = 3, dt_day = 5, dt_micros = 0\<rparr>
          \<lparr>dt_year = 2024, dt_month = 12, dt_day = 1, dt_micros = 0\<rparr>"
    by (simp add: datetime_ge_def)
  have c: "\<not> chronological (projr ?final)"
    unfolding chronological_def m' using n by (simp add: newer_or_same_def r1 r2)
  from m r1 r2 n c show ?thesis by blast
qed

end
